theory Spec2Isabelle
  imports Complex_Main "HOL-Library.Log_Nat" "HOL-Library.Signed_Division"
begin

text \<open>
  Two programs of the Parallel Research Kernels, C++11 versions: the matrix transpose
  written with range-v3 views (\<^verbatim>\<open>Cxx11/transpose-ranges.cc\<close>) and the stencil written with
  TBB (\<^verbatim>\<open>Cxx11/stencil-vector-tbb.cc\<close>). Each \<^verbatim>\<open>main\<close> is embedded as a function from the
  argument vector to what the run leaves behind; the definitions come first, the proofs
  after them.
\<close>

section \<open>Double-precision values\<close>

text \<open>
  Both kernels store \<^verbatim>\<open>double\<close>s. A finite double is a rational number, and every
  arithmetic operation of IEEE 754 binary64 returns the exact result rounded to the
  nearest representable value, ties to the even significand. The model keeps the value
  as a \<^typ>\<open>rat\<close> and rounds after every operation: 53 significant bits, gradual
  underflow below \<open>2 powi - 1022\<close>. Infinities and NaN (magnitudes from \<open>2 ^ 1024\<close>
  on, division by zero) are outside the model; no value of these programs comes near.
\<close>

type_synonym double = rat

definition round_even :: "rat \<Rightarrow> int" where
  "round_even x = (let f = \<lfloor>x\<rfloor>; d = x - of_int f in
     if d < 1 / 2 then f else if 1 / 2 < d then f + 1 else if even f then f else f + 1)"

text \<open>The binary exponent of a non-zero value: \<open>2 powi expo x \<le> \<bar>x\<bar> < 2 powi (expo x + 1)\<close>.\<close>

definition expo :: "rat \<Rightarrow> int" where
  "expo x = (case quotient_of \<bar>x\<bar> of (p, q) \<Rightarrow>
     let d = bitlen p - bitlen q in if 2 powi d \<le> \<bar>x\<bar> then d else d - 1)"

definition rnd :: "rat \<Rightarrow> double" where
  "rnd x = (if x = 0 then 0 else
     let s = 2 powi (max (expo x) (- 1022) - 52) in of_int (round_even (x / s)) * s)"

definition dadd :: "double \<Rightarrow> double \<Rightarrow> double" where
  "dadd x y = rnd (x + y)"

definition dsub :: "double \<Rightarrow> double \<Rightarrow> double" where
  "dsub x y = rnd (x - y)"

definition dmul :: "double \<Rightarrow> double \<Rightarrow> double" where
  "dmul x y = rnd (x * y)"

definition ddiv :: "double \<Rightarrow> double \<Rightarrow> double" where
  "ddiv x y = rnd (x / y)"

definition dabs :: "double \<Rightarrow> double" where
  "dabs x = \<bar>x\<bar>"

text \<open>Conversion of an integer (\<^verbatim>\<open>static_cast<double>\<close>, the usual arithmetic conversions).\<close>

definition double_of_int :: "int \<Rightarrow> double" where
  "double_of_int i = rnd (of_int i)"

definition double_of_nat :: "nat \<Rightarrow> double" where
  "double_of_nat k = rnd (of_nat k)"

text \<open>The literal \<^verbatim>\<open>1.0e-8\<close>.\<close>

definition epsilon :: double where
  "epsilon = rnd (1 / 10 ^ 8)"

section \<open>Command line\<close>

text \<open>
  The type \<^verbatim>\<open>int\<close> has 32 bits. Its values are kept in \<^typ>\<open>int\<close>, and where a
  computation on accepted input can leave the range (\<^verbatim>\<open>2*radius+1\<close>, \<^verbatim>\<open>n-2*radius\<close>,
  \<^verbatim>\<open>iter++\<close>) the result is wrapped to 32 bits by \<open>wrap32\<close>, as the machine does it;
  the other sums and products stay in range for every accepted input. \<^verbatim>\<open>std::atoi\<close> is
  the C library's: white space, an optional sign, decimal digits, the rest ignored, and
  0 when there is no digit. Text that denotes a number outside \<^verbatim>\<open>int\<close> is undefined
  for ISO C; the model does what glibc does (\<^verbatim>\<open>strtol\<close> saturated to 64 bits, then
  truncated to 32), so that the result is always a value of the type.
\<close>

definition INT_MAX :: int where
  "INT_MAX = 2147483647"

definition wrap32 :: "int \<Rightarrow> int" where
  "wrap32 v = (v + 2 ^ 31) mod 2 ^ 32 - 2 ^ 31"

text \<open>The conversion of an \<^verbatim>\<open>int\<close> to \<^verbatim>\<open>size_t\<close>, 64 bits and unsigned.\<close>

definition size_t_of_int :: "int \<Rightarrow> nat" where
  "size_t_of_int v = nat (v mod 2 ^ 64)"

definition isspace :: "char \<Rightarrow> bool" where
  "isspace c = (of_char c \<in> {32, 9, 10, 11, 12, 13 :: nat})"

definition isdigit :: "char \<Rightarrow> bool" where
  "isdigit c = (48 \<le> (of_char c :: nat) \<and> (of_char c :: nat) \<le> 57)"

fun digits_val :: "int \<Rightarrow> string \<Rightarrow> int" where
  "digits_val acc [] = acc"
| "digits_val acc (c # cs) =
     (if isdigit c then digits_val (acc * 10 + (of_char c - 48)) cs else acc)"

definition strtol :: "string \<Rightarrow> int" where
  "strtol s =
     (let v = (case dropWhile isspace s of
                 [] \<Rightarrow> 0
               | c # cs \<Rightarrow>
                   if c = CHR ''-'' then - digits_val 0 cs
                   else if c = CHR ''+'' then digits_val 0 cs
                   else digits_val 0 (c # cs))
      in max (- (2 ^ 63)) (min (2 ^ 63 - 1) v))"

definition atoi :: "string \<Rightarrow> int" where
  "atoi s = wrap32 (strtol s)"

section \<open>What a run leaves behind\<close>

text \<open>
  A run is observed through its exit code, the lines written to standard output and
  standard error, and the two arrays when they were allocated. Wall-clock time is not
  modelled: the rate line is a token without its numbers, and so is the version banner,
  whose text is a macro of \<^verbatim>\<open>prk_util.h\<close>.
\<close>

datatype line =
    VersionBanner
  | Text string
  | IntParam string int
  | StrParam string string
  | AggregateError double double
  | NormError double double
  | NotInstantiated int
  | RateLine

type_synonym arrays = "double list \<times> double list"

record run_result =
  exit_code :: int
  stdout :: "line list"
  stderr :: "line list"
  final_arrays :: "arrays option"

section \<open>The iteration loop\<close>

text \<open>
  Both programs run their passes in \<^verbatim>\<open>for (int iter = 0; iter<=iterations; iter++)\<close>
  (\<^verbatim>\<open>auto iter = 0\<close> in the stencil program, an \<^verbatim>\<open>int\<close> as well). The counter has 32
  bits: from \<open>INT_MAX\<close> the increment wraps to \<open>- 2 ^ 31\<close>, so that with
  \<open>iterations = INT_MAX\<close> the condition never fails and the loop does not return. The
  loop is therefore a partial function; \<open>None\<close> is the run that never ends.
\<close>

partial_function (option) for_iter :: "('s \<Rightarrow> 's) \<Rightarrow> int \<Rightarrow> int \<Rightarrow> 's \<Rightarrow> 's option" where
  "for_iter body iter iterations st =
     (if iter \<le> iterations
      then for_iter body (wrap32 (iter + 1)) iterations (body st)
      else Some st)"

section \<open>Matrix transpose (transpose-ranges.cc)\<close>

record transpose_params =
  t_iterations :: int
  t_order :: int
  t_tile_size :: int

text \<open>
  The \<^verbatim>\<open>try\<close> block of \<^verbatim>\<open>main\<close>: \<open>Inl\<close> is the thrown message. The bound
  \<^verbatim>\<open>prk::get_max_matrix_size()\<close> is declared in \<^verbatim>\<open>prk_util.h\<close>, which is not among the
  sources; it is the parameter \<open>max_matrix_size\<close>.
\<close>

definition transpose_read_input :: "int \<Rightarrow> string list \<Rightarrow> string + transpose_params" where
  "transpose_read_input max_matrix_size argv =
     (if length argv < 3 then Inl ''Usage: <# iterations> <matrix order> [tile size]''
      else let iterations = atoi (argv ! 1) in
        if iterations < 1 then Inl ''ERROR: iterations must be >= 1''
        else let order = atoi (argv ! 2) in
          if order \<le> 0 then Inl ''ERROR: Matrix Order must be greater than 0''
          else if order > max_matrix_size
            then Inl ''ERROR: matrix dimension too large - overflow risk''
          else let tile_size = (if length argv > 3 then atoi (argv ! 3) else order);
                   tile_size = (if tile_size \<le> 0 then order else tile_size) in
            if tile_size < order \<and> order smod tile_size \<noteq> 0
              then Inl ''ERROR: tile size must evenly divide order''
            else Inr \<lparr>t_iterations = iterations, t_order = order, t_tile_size = tile_size\<rparr>)"

text \<open>\<^verbatim>\<open>std::iota(first, last, 0.0)\<close>: store the value, then \<^verbatim>\<open>++value\<close>.\<close>

fun iota :: "nat \<Rightarrow> double \<Rightarrow> double list" where
  "iota 0 v = []"
| "iota (Suc k) v = v # iota k (dadd v 1)"

text \<open>
  The range-v3 views, as the lists of the values they yield: \<^verbatim>\<open>views::iota(0, n)\<close> is
  \<open>[0..<n]\<close>, \<^verbatim>\<open>stride_view\<close> keeps every \<open>k\<close>-th element from the first on, and
  \<^verbatim>\<open>cartesian_product\<close> runs its last argument fastest.
\<close>

fun stride :: "'a list \<Rightarrow> nat \<Rightarrow> 'a list" where
  "stride [] k = []"
| "stride (x # xs) k = x # stride (drop (k - 1) xs) k"

definition cartesian_product :: "'a list \<Rightarrow> 'b list \<Rightarrow> ('a \<times> 'b) list" where
  "cartesian_product xs ys = List.product xs ys"

definition v_range :: "nat \<Rightarrow> (nat \<times> nat) list" where
  "v_range order = cartesian_product [0..<order] [0..<order]"

definition s_range :: "nat \<Rightarrow> nat \<Rightarrow> (nat \<times> nat) list" where
  "s_range order tile_size =
     cartesian_product (stride [0..<order] tile_size) (stride [0..<order] tile_size)"

definition t_range :: "nat \<Rightarrow> (nat \<times> nat) list" where
  "t_range tile_size = cartesian_product [0..<tile_size] [0..<tile_size]"

text \<open>
  The loop bodies. \<^verbatim>\<open>B[..] += A[..]\<close> reads \<open>A\<close> before \<^verbatim>\<open>A[..] += 1.0\<close> writes it.
  An index beyond the array is undefined behaviour in the source; here the read is
  unspecified and the write is dropped, and the theorems below show that it never happens.
\<close>

definition untiled_body :: "nat \<Rightarrow> nat \<times> nat \<Rightarrow> arrays \<Rightarrow> arrays" where
  "untiled_body order ij st =
     (case ij of (i, j) \<Rightarrow> case st of (A, B) \<Rightarrow>
        let B' = B[i * order + j := dadd (B ! (i * order + j)) (A ! (j * order + i))];
            A' = A[j * order + i := dadd (A ! (j * order + i)) 1]
        in (A', B'))"

definition tiled_body :: "nat \<Rightarrow> nat \<times> nat \<Rightarrow> nat \<times> nat \<Rightarrow> arrays \<Rightarrow> arrays" where
  "tiled_body order itjt ij st =
     (case itjt of (it, jt) \<Rightarrow> case ij of (i, j) \<Rightarrow> case st of (A, B) \<Rightarrow>
        let B' = B[(it + i) * order + (jt + j) :=
                   dadd (B ! ((it + i) * order + (jt + j))) (A ! ((jt + j) * order + (it + i)))];
            A' = A[(jt + j) * order + (it + i) := dadd (A ! ((jt + j) * order + (it + i))) 1]
        in (A', B'))"

text \<open>One pass of the \<^verbatim>\<open>iter\<close> loop: the tiled branch or the untiled one.\<close>

definition transpose_pass :: "nat \<Rightarrow> nat \<Rightarrow> arrays \<Rightarrow> arrays" where
  "transpose_pass order tile_size st =
     (if tile_size < order
      then fold (\<lambda>itjt. fold (tiled_body order itjt) (t_range tile_size))
                (s_range order tile_size) st
      else fold (untiled_body order) (v_range order) st)"

text \<open>The \<^verbatim>\<open>iter\<close> loop of the transpose program.\<close>

definition transpose_loop :: "int \<Rightarrow> int \<Rightarrow> nat \<Rightarrow> nat \<Rightarrow> arrays \<Rightarrow> arrays option" where
  "transpose_loop iter iterations order tile_size st =
     for_iter (transpose_pass order tile_size) iter iterations st"

text \<open>
  Modelled from the spec: \<^verbatim>\<open>prk::range\<close> and \<^verbatim>\<open>prk::abs\<close>, which the verification loop
  calls, are declared in \<^verbatim>\<open>prk_util.h\<close>, not among the sources. The spec (4.4) has
  the verifier "sum absolute deviation from actual \<open>B\<close>" over each cell: the ranges are
  the integers from 0 below \<open>order\<close>, and \<^verbatim>\<open>prk::abs\<close> is the absolute value. Likewise
  \<^verbatim>\<open>prk::vector<double>\<close> is taken to be a vector of doubles of the given size.
\<close>

definition addit :: "int \<Rightarrow> double" where
  "addit iterations = dmul (dadd (double_of_int iterations) 1) (ddiv (double_of_int iterations) 2)"

definition reference :: "int \<Rightarrow> nat \<Rightarrow> double" where
  "reference iterations ij =
     dadd (dmul (double_of_nat ij) (dadd 1 (double_of_int iterations))) (addit iterations)"

definition transpose_abserr :: "int \<Rightarrow> nat \<Rightarrow> double list \<Rightarrow> double" where
  "transpose_abserr iterations order B =
     fold (\<lambda>i. fold (\<lambda>j abserr.
             let ij = i * order + j; ji = j * order + i
             in dadd abserr (dabs (dsub (B ! ji) (reference iterations ij))))
           [0..<order])
       [0..<order] 0"

definition transpose_compute :: "transpose_params \<Rightarrow> arrays option" where
  "transpose_compute c =
     (let order = nat (t_order c);
          A = iota (order * order) 0;
          B = replicate (order * order) 0
      in transpose_loop 0 (t_iterations c) order (nat (t_tile_size c)) (A, B))"

text \<open>\<^verbatim>\<open>main\<close>; \<open>None\<close> when the loop does not return.\<close>

definition transpose_main :: "int \<Rightarrow> string list \<Rightarrow> run_result option" where
  "transpose_main max_matrix_size argv =
     (let banner = [VersionBanner, Text ''C++11/ranges Matrix transpose: B = A^T''] in
      case transpose_read_input max_matrix_size argv of
        Inl e \<Rightarrow>
          Some \<lparr>exit_code = 1, stdout = banner @ [Text e], stderr = [], final_arrays = None\<rparr>
      | Inr c \<Rightarrow>
          (case transpose_compute c of
             None \<Rightarrow> None
           | Some AB \<Rightarrow>
               let echo = [IntParam ''Number of iterations = '' (t_iterations c),
                           IntParam ''Matrix order         = '' (t_order c),
                           IntParam ''Tile size            = '' (t_tile_size c)];
                   abserr = transpose_abserr (t_iterations c) (nat (t_order c)) (snd AB)
               in if abserr < epsilon
                  then Some \<lparr>exit_code = 0,
                        stdout = banner @ echo @ [Text ''Solution validates'', RateLine],
                        stderr = [], final_arrays = Some AB\<rparr>
                  else Some \<lparr>exit_code = 1,
                        stdout = banner @ echo @ [AggregateError abserr epsilon],
                        stderr = [], final_arrays = Some AB\<rparr>))"

section \<open>Stencil (stencil-vector-tbb.cc)\<close>

record stencil_params =
  s_iterations :: int
  s_n :: int
  s_tile_size :: int
  s_star :: bool
  s_radius :: int

text \<open>
  \<^verbatim>\<open>std::floor(std::sqrt(INT_MAX))\<close>: the square root of 2147483647 lies strictly
  between 46340 and 46341 (lemma \<open>grid_limit_floor_sqrt\<close> below), and so does its
  rounded double.
\<close>

definition grid_limit :: int where
  "grid_limit = 46340"

text \<open>
  The \<^verbatim>\<open>try\<close> block of \<^verbatim>\<open>main\<close>. The radius is an \<^verbatim>\<open>int\<close> that nothing bounds from
  above before \<^verbatim>\<open>2*radius+1 > n\<close> is computed, in \<^verbatim>\<open>int\<close>: from \<open>2 ^ 30\<close> on the
  product wraps.
\<close>

definition stencil_read_input :: "string list \<Rightarrow> string + stencil_params" where
  "stencil_read_input argv =
     (if length argv < 3
        then Inl ''Usage: <# iterations> <array dimension> [tile_size] [<star/grid> <radius>]''
      else let iterations = atoi (argv ! 1) in
        if iterations < 1 then Inl ''ERROR: iterations must be >= 1''
        else let n = atoi (argv ! 2) in
          if n < 1 then Inl ''ERROR: grid dimension must be positive''
          else if n > grid_limit then Inl ''ERROR: grid dimension too large - overflow risk''
          else let tile_size =
                     (if length argv > 3
                      then let tile_size = atoi (argv ! 3)
                           in if tile_size < 1 \<or> tile_size > n then n else tile_size
                      else 32);
                   star = (if length argv > 4
                           then (if argv ! 4 = ''grid'' then False else True)
                           else True);
                   radius = (if length argv > 5 then atoi (argv ! 5) else 2) in
            if radius < 1 \<or> wrap32 (wrap32 (2 * radius) + 1) > n
              then Inl ''ERROR: Stencil radius negative or too large''
            else Inr \<lparr>s_iterations = iterations, s_n = n, s_tile_size = tile_size,
                      s_star = star, s_radius = radius\<rparr>)"

text \<open>
  \<^verbatim>\<open>tbb::blocked_range2d<int>\<close>, and \<^verbatim>\<open>parallel_for\<close>. The library hands the body
  sub-rectangles that partition the range, on several threads. Every body of this
  program writes, for each cell of its rectangle, that cell only, from values no other
  cell's step writes in the same call; so a call amounts to one application of the body
  to the whole range, and that is the model. The grain sizes only steer the partition.
\<close>

record blocked_range2d =
  rows_begin :: nat
  rows_end :: nat
  rows_grainsize :: nat
  cols_begin :: nat
  cols_end :: nat
  cols_grainsize :: nat

definition parallel_for :: "blocked_range2d \<Rightarrow> (blocked_range2d \<Rightarrow> 's \<Rightarrow> 's) \<Rightarrow> 's \<Rightarrow> 's" where
  "parallel_for r body st = body r st"

definition range_cells :: "blocked_range2d \<Rightarrow> (nat \<times> nat) list" where
  "range_cells r =
     cartesian_product [rows_begin r..<rows_end r] [cols_begin r..<cols_end r]"

definition Initialize :: "nat \<Rightarrow> blocked_range2d \<Rightarrow> arrays \<Rightarrow> arrays" where
  "Initialize n r st =
     fold (\<lambda>ij st. case ij of (i, j) \<Rightarrow> case st of (A, B) \<Rightarrow>
             (A[i * n + j := double_of_nat (i + j)], B[i * n + j := 0]))
       (range_cells r) st"

definition Add :: "nat \<Rightarrow> blocked_range2d \<Rightarrow> double list \<Rightarrow> double list" where
  "Add n r A =
     fold (\<lambda>ij A. case ij of (i, j) \<Rightarrow> A[i * n + j := dadd (A ! (i * n + j)) 1])
       (range_cells r) A"

definition ParallelInitialize :: "nat \<Rightarrow> nat \<Rightarrow> arrays \<Rightarrow> arrays" where
  "ParallelInitialize n tile_size st =
     parallel_for \<lparr>rows_begin = 0, rows_end = n, rows_grainsize = tile_size,
                   cols_begin = 0, cols_end = n, cols_grainsize = tile_size\<rparr>
       (Initialize n) st"

definition ParallelAdd :: "nat \<Rightarrow> nat \<Rightarrow> double list \<Rightarrow> double list" where
  "ParallelAdd n tile_size A =
     parallel_for \<lparr>rows_begin = 0, rows_end = n, rows_grainsize = tile_size,
                   cols_begin = 0, cols_end = n, cols_grainsize = tile_size\<rparr>
       (Add n) A"

text \<open>
  Modelled from the spec: the function objects \<^verbatim>\<open>Star<radius>\<close> and \<^verbatim>\<open>Grid<radius>\<close>
  are defined in \<^verbatim>\<open>stencil_tbb.hpp\<close>, which is not among the sources. The spec (4.2):
  for every output cell \<open>(i, j)\<close> of the rectangle,
  \<open>B[i,j] += \<Sum> weight[k] * A[i+di_k, j+dj_k]\<close> over the fixed neighbour offsets of the
  shape and radius, "Star: \<open>4 * radius + 1\<close> elements along the two axes; Grid: all
  \<open>(2 * radius + 1)\<^sup>2\<close> cells in the bounding box", the tiles "read-only on \<open>A\<close>". The
  weights themselves are not given: they are the parameter \<open>weight\<close>, a function of the
  shape (\<open>True\<close> for star), the radius and the offset. The sum is taken in the order of
  the offset list.
\<close>

type_synonym weights = "bool \<Rightarrow> nat \<Rightarrow> int \<times> int \<Rightarrow> double"

definition star_offsets :: "nat \<Rightarrow> (int \<times> int) list" where
  "star_offsets radius =
     (0, 0) # concat (map (\<lambda>k. [(0, int k), (0, - int k), (int k, 0), (- int k, 0)])
                       [1..<Suc radius])"

definition grid_offsets :: "nat \<Rightarrow> (int \<times> int) list" where
  "grid_offsets radius = List.product [- int radius..int radius] [- int radius..int radius]"

definition weighted_sum ::
    "(int \<times> int \<Rightarrow> double) \<Rightarrow> (int \<times> int) list \<Rightarrow> nat \<Rightarrow> double list \<Rightarrow> nat \<Rightarrow> nat \<Rightarrow> double" where
  "weighted_sum w offsets n A i j =
     fold (\<lambda>d s. case d of (di, dj) \<Rightarrow>
             dadd s (dmul (w d) (A ! nat ((int i + di) * int n + (int j + dj)))))
       offsets 0"

definition stencil_body ::
    "(int \<times> int \<Rightarrow> double) \<Rightarrow> (int \<times> int) list \<Rightarrow> nat \<Rightarrow> blocked_range2d \<Rightarrow> arrays \<Rightarrow> arrays" where
  "stencil_body w offsets n r st =
     fold (\<lambda>ij st. case ij of (i, j) \<Rightarrow> case st of (A, B) \<Rightarrow>
             (A, B[i * n + j := dadd (B ! (i * n + j)) (weighted_sum w offsets n A i j)]))
       (range_cells r) st"

definition Star :: "weights \<Rightarrow> nat \<Rightarrow> nat \<Rightarrow> blocked_range2d \<Rightarrow> arrays \<Rightarrow> arrays" where
  "Star weight radius n = stencil_body (weight True radius) (star_offsets radius) n"

definition Grid :: "weights \<Rightarrow> nat \<Rightarrow> nat \<Rightarrow> blocked_range2d \<Rightarrow> arrays \<Rightarrow> arrays" where
  "Grid weight radius n = stencil_body (weight False radius) (grid_offsets radius) n"

text \<open>\<^verbatim>\<open>ParallelStar<radius>\<close> and \<^verbatim>\<open>ParallelGrid<radius>\<close>, over the interior of the grid.\<close>

definition ParallelStar :: "weights \<Rightarrow> nat \<Rightarrow> nat \<Rightarrow> nat \<Rightarrow> arrays \<Rightarrow> arrays" where
  "ParallelStar weight radius n tile_size st =
     parallel_for \<lparr>rows_begin = radius, rows_end = n - radius, rows_grainsize = tile_size,
                   cols_begin = radius, cols_end = n - radius, cols_grainsize = tile_size\<rparr>
       (Star weight radius n) st"

definition ParallelGrid :: "weights \<Rightarrow> nat \<Rightarrow> nat \<Rightarrow> nat \<Rightarrow> arrays \<Rightarrow> arrays" where
  "ParallelGrid weight radius n tile_size st =
     parallel_for \<lparr>rows_begin = radius, rows_end = n - radius, rows_grainsize = tile_size,
                   cols_begin = radius, cols_end = n - radius, cols_grainsize = tile_size\<rparr>
       (Grid weight radius n) st"

text \<open>
  The state of the compute loop: the arrays and what has been written to standard error.
  The two \<^verbatim>\<open>switch\<close> statements instantiate the template for the radii 1 to 9 and
  print to \<^verbatim>\<open>std::cerr\<close> otherwise.
\<close>

type_synonym stencil_state = "arrays \<times> line list"

definition apply_stencil :: "weights \<Rightarrow> stencil_params \<Rightarrow> stencil_state \<Rightarrow> stencil_state" where
  "apply_stencil weight c st =
     (case st of (AB, err) \<Rightarrow>
        let n = nat (s_n c); tile_size = nat (s_tile_size c); radius = s_radius c in
        if s_star c then
          (if radius \<in> {1, 2, 3, 4, 5, 6, 7, 8, 9}
           then (ParallelStar weight (nat radius) n tile_size AB, err)
           else (AB, err @ [NotInstantiated radius]))
        else
          (if radius \<in> {1, 2, 3, 4, 5, 6, 7, 8, 9}
           then (ParallelGrid weight (nat radius) n tile_size AB, err)
           else (AB, err @ [NotInstantiated radius])))"

text \<open>
  One iteration of \<^verbatim>\<open>for (auto iter = 0; iter<=iterations; iter++)\<close>: the stencil, then
  \<^verbatim>\<open>ParallelAdd\<close>.
\<close>

definition stencil_pass :: "weights \<Rightarrow> stencil_params \<Rightarrow> stencil_state \<Rightarrow> stencil_state" where
  "stencil_pass weight c st =
     (case apply_stencil weight c st of ((A, B), err) \<Rightarrow>
        ((ParallelAdd (nat (s_n c)) (nat (s_tile_size c)) A, B), err))"

definition stencil_loop ::
    "weights \<Rightarrow> stencil_params \<Rightarrow> int \<Rightarrow> stencil_state \<Rightarrow> stencil_state option" where
  "stencil_loop weight c iter st = for_iter (stencil_pass weight c) iter (s_iterations c) st"

text \<open>The arrays after \<^verbatim>\<open>resize\<close> and \<^verbatim>\<open>ParallelInitialize\<close>, nothing written to \<^verbatim>\<open>std::cerr\<close>.\<close>

definition stencil_initial :: "stencil_params \<Rightarrow> stencil_state" where
  "stencil_initial c =
     (let n = nat (s_n c);
          A = replicate (n * n) 0;
          B = replicate (n * n) 0
      in (ParallelInitialize n (nat (s_tile_size c)) (A, B), []))"

definition stencil_compute :: "weights \<Rightarrow> stencil_params \<Rightarrow> stencil_state option" where
  "stencil_compute weight c = stencil_loop weight c 0 (stencil_initial c)"

text \<open>
  The verification. \<^verbatim>\<open>n-2*radius\<close> is computed in \<^verbatim>\<open>int\<close> and converted to
  \<^verbatim>\<open>size_t\<close>; the product is one of \<^verbatim>\<open>size_t\<close>.
\<close>

definition active_points :: "stencil_params \<Rightarrow> nat" where
  "active_points c =
     (let d = size_t_of_int (wrap32 (s_n c - wrap32 (2 * s_radius c)))
      in (d * d) mod 2 ^ 64)"

definition stencil_norm :: "stencil_params \<Rightarrow> double list \<Rightarrow> double" where
  "stencil_norm c B =
     (let n = nat (s_n c); radius = nat (s_radius c);
          norm = fold (\<lambda>i. fold (\<lambda>j norm. dadd norm (dabs (B ! (i * n + j))))
                               [radius..<n - radius])
                   [radius..<n - radius] 0
      in ddiv norm (double_of_nat (active_points c)))"

definition reference_norm :: "stencil_params \<Rightarrow> double" where
  "reference_norm c = dmul 2 (dadd (double_of_int (s_iterations c)) 1)"

text \<open>\<^verbatim>\<open>main\<close>; \<open>None\<close> when the loop does not return.\<close>

definition stencil_main :: "weights \<Rightarrow> string list \<Rightarrow> run_result option" where
  "stencil_main weight argv =
     (let banner = [VersionBanner, Text ''C++11/TBB Stencil execution on 2D grid''] in
      case stencil_read_input argv of
        Inl e \<Rightarrow>
          Some \<lparr>exit_code = 1, stdout = banner @ [Text e], stderr = [], final_arrays = None\<rparr>
      | Inr c \<Rightarrow>
          (case stencil_compute weight c of
             None \<Rightarrow> None
           | Some run \<Rightarrow>
               let echo = [IntParam ''Number of iterations = '' (s_iterations c),
                           IntParam ''Grid size            = '' (s_n c),
                           IntParam ''Tile size            = '' (s_tile_size c),
                           StrParam ''Type of stencil      = ''
                             (if s_star c then ''star'' else ''grid''),
                           IntParam ''Radius of stencil    = '' (s_radius c),
                           Text ''Compact representation of stencil loop body''];
                   norm = stencil_norm c (snd (fst run))
               in if dabs (dsub norm (reference_norm c)) > epsilon
                  then Some \<lparr>exit_code = 1,
                        stdout = banner @ echo @ [NormError norm (reference_norm c)],
                        stderr = snd run, final_arrays = Some (fst run)\<rparr>
                  else Some \<lparr>exit_code = 0,
                        stdout = banner @ echo @ [Text ''Solution validates'', RateLine],
                        stderr = snd run, final_arrays = Some (fst run)\<rparr>))"

section \<open>Notions used in the statements\<close>

text \<open>
  Cell \<open>(i, j)\<close> of a row-major \<open>n \<times> n\<close> array has index \<open>i * n + j\<close>; \<open>tr n c\<close> is the
  index of the transposed cell.
\<close>

definition tr :: "nat \<Rightarrow> nat \<Rightarrow> nat" where
  "tr n c = (c mod n) * n + c div n"

text \<open>
  The cells \<open>(it + i, jt + j)\<close> in the order in which the tiled loop nest visits them.
\<close>

definition tiled_cells :: "nat \<Rightarrow> nat \<Rightarrow> (nat \<times> nat) list" where
  "tiled_cells n k =
     map (\<lambda>(itjt, ij). (fst itjt + fst ij, snd itjt + snd ij))
       (List.product (s_range n k) (t_range k))"

text \<open>
  The arrays of the transpose program after \<open>m\<close> passes, were the arithmetic exact:
  every pass adds 1 to each cell of \<open>A\<close>, which starts as \<open>0, 1, 2, \<dots>\<close>, and adds to each
  cell of \<open>B\<close> the transposed cell of \<open>A\<close>.
\<close>

definition A_after :: "nat \<Rightarrow> nat \<Rightarrow> double list" where
  "A_after n m = map (\<lambda>c. of_nat (c + m)) [0..<n * n]"

definition B_after :: "nat \<Rightarrow> nat \<Rightarrow> double list" where
  "B_after n m = map (\<lambda>c. of_nat (m * tr n c + m * (m - 1) div 2)) [0..<n * n]"

text \<open>
  The array \<open>A\<close> of the stencil program after \<open>m\<close> passes: cell \<open>(i, j)\<close> starts as
  \<open>i + j\<close> and every pass adds 1.
\<close>

definition grid_after :: "nat \<Rightarrow> nat \<Rightarrow> double list" where
  "grid_after n m = map (\<lambda>c. of_nat (c div n + c mod n + m)) [0..<n * n]"

section \<open>Facts about the double model\<close>

lemma round_even_of_int: "round_even (of_int z) = z"
  by (simp add: round_even_def)

lemma bitlen_powi:
  assumes "0 < p"
  shows "(2::rat) powi (bitlen p - 1) \<le> of_int p" "of_int p < (2::rat) powi (bitlen p)"
proof -
  have b: "2 ^ nat (bitlen p - 1) \<le> p" "p < 2 ^ nat (bitlen p)"
    using bitlen_bounds[OF assms] by auto
  have pos: "1 \<le> bitlen p"
    using assms bitlen_nonneg[of p] bitlen_eq_zero_iff[of p] by linarith
  have "(2::rat) powi (bitlen p - 1) = of_int (2 ^ nat (bitlen p - 1))"
    using pos by (simp add: power_int_nonneg_exp)
  also have "\<dots> \<le> of_int p" using b(1) by (simp only: of_int_le_iff)
  finally show "(2::rat) powi (bitlen p - 1) \<le> of_int p" .
  have "(of_int p :: rat) < of_int (2 ^ nat (bitlen p))" using b(2) by (simp only: of_int_less_iff)
  also have "\<dots> = 2 powi (bitlen p)" using pos by (simp add: power_int_nonneg_exp)
  finally show "of_int p < (2::rat) powi (bitlen p)" .
qed

lemma expo_bounds:
  assumes "x \<noteq> 0"
  shows "2 powi (expo x) \<le> \<bar>x\<bar>" "\<bar>x\<bar> < 2 powi (expo x + 1)"
proof -
  obtain p q where pq: "quotient_of \<bar>x\<bar> = (p, q)" by (cases "quotient_of \<bar>x\<bar>")
  have q: "0 < q" using quotient_of_denom_pos[OF pq] .
  have x: "\<bar>x\<bar> = of_int p / of_int q" using quotient_of_div[OF pq] .
  have p: "0 < p"
  proof (rule ccontr)
    assume "\<not> 0 < p"
    then have "(of_int p :: rat) \<le> 0" by simp
    then have "\<bar>x\<bar> \<le> 0" using q x by (simp add: divide_le_0_iff)
    then show False using assms by simp
  qed
  let ?d = "bitlen p - bitlen q"
  have qr: "(0::rat) < of_int q" using q by simp
  have lo: "2 powi (?d - 1) \<le> \<bar>x\<bar>"
  proof -
    have "(2::rat) powi (?d - 1) * of_int q \<le> 2 powi (?d - 1) * 2 powi (bitlen q)"
      using bitlen_powi(2)[OF q] by (intro mult_left_mono) auto
    also have "\<dots> = 2 powi (bitlen p - 1)"
      by (simp add: power_int_add[symmetric])
    also have "\<dots> \<le> of_int p" using bitlen_powi(1)[OF p] .
    finally show ?thesis using qr by (simp add: x pos_le_divide_eq)
  qed
  have hi: "\<bar>x\<bar> < 2 powi (?d + 1)"
  proof -
    have "of_int p < (2::rat) powi (bitlen p)" using bitlen_powi(2)[OF p] .
    also have "\<dots> = 2 powi (?d + 1) * 2 powi (bitlen q - 1)"
      by (simp add: power_int_add[symmetric])
    also have "\<dots> \<le> 2 powi (?d + 1) * of_int q"
      using bitlen_powi(1)[OF q] by (intro mult_left_mono) auto
    finally show ?thesis using qr by (simp add: x pos_divide_less_eq)
  qed
  have e: "expo x = (if 2 powi ?d \<le> \<bar>x\<bar> then ?d else ?d - 1)"
    by (simp add: expo_def pq Let_def)
  show "2 powi (expo x) \<le> \<bar>x\<bar>" using lo by (simp add: e)
  show "\<bar>x\<bar> < 2 powi (expo x + 1)" using hi by (auto simp: e not_le)
qed

lemma powi2_le_iff: "(2::rat) powi a \<le> 2 powi b \<longleftrightarrow> a \<le> b"
proof
  assume h: "(2::rat) powi a \<le> 2 powi b"
  show "a \<le> b"
  proof (rule ccontr)
    assume "\<not> a \<le> b"
    then have "(2::rat) powi b < 2 powi a" by (intro power_int_strict_increasing) auto
    with h show False by simp
  qed
next
  assume "a \<le> b"
  then show "(2::rat) powi a \<le> 2 powi b" by (intro power_int_increasing) auto
qed

lemma powi2_less_iff: "(2::rat) powi a < 2 powi b \<longleftrightarrow> a < b"
  using powi2_le_iff[of b a] by (simp add: not_le[symmetric])

text \<open>
  A value \<open>m * 2 powi k\<close> whose significand \<open>m\<close> has at most 53 bits is a double:
  rounding leaves it as it is.
\<close>

lemma rnd_dyadic_strict:
  assumes m: "\<bar>m\<bar> < 2 ^ 53" and k: "- 1074 \<le> k"
  shows "rnd (of_int m * 2 powi k) = of_int m * 2 powi k"
proof (cases "m = 0")
  case True then show ?thesis by (simp add: rnd_def)
next
  case False
  let ?x = "of_int m * (2::rat) powi k"
  have x0: "?x \<noteq> 0" using False by simp
  have absx: "\<bar>?x\<bar> = of_int \<bar>m\<bar> * 2 powi k" by (simp add: abs_mult power_int_abs)
  have "2 powi (expo ?x) \<le> \<bar>?x\<bar>" using expo_bounds(1)[OF x0] .
  also have "\<dots> < of_int (2 ^ 53) * 2 powi k"
    unfolding absx using m
    by (intro mult_strict_right_mono) (auto simp only: of_int_less_iff zero_less_power_int)
  also have "\<dots> = 2 powi (53 + k)" by (simp add: power_int_add)
  finally have e1: "expo ?x < 53 + k" by (simp only: powi2_less_iff)
  define E where "E = max (expo ?x) (- 1022) - 52"
  have E: "E \<le> k" using e1 k by (simp add: E_def)
  define j where "j = nat (k - E)"
  have kj: "k = E + int j" using E by (simp add: j_def)
  have pk: "(2::rat) powi k = 2 powi E * 2 ^ j"
    by (subst kj) (simp add: power_int_add)
  have xs: "?x / 2 powi E = of_int (m * 2 ^ j)"
    by (simp add: pk)
  have "rnd ?x = of_int (round_even (?x / 2 powi E)) * 2 powi E"
    using x0 by (simp add: rnd_def Let_def E_def)
  also have "\<dots> = of_int (m * 2 ^ j) * 2 powi E"
    by (simp only: xs round_even_of_int)
  also have "\<dots> = ?x" by (simp add: pk)
  finally show ?thesis .
qed

lemma rnd_dyadic:
  assumes m: "\<bar>m\<bar> \<le> 2 ^ 53" and k: "- 1074 \<le> k"
  shows "rnd (of_int m * 2 powi k) = of_int m * 2 powi k"
proof (cases "\<bar>m\<bar> = 2 ^ 53")
  case False
  then show ?thesis using m k by (intro rnd_dyadic_strict) auto
next
  case True
  then have "m = 2 ^ 53 \<or> m = - (2 ^ 53)" by linarith
  then obtain m' :: int where m': "m = m' * 2" "\<bar>m'\<bar> < 2 ^ 53"
    by (elim disjE) (rule that[of "2 ^ 52"], simp, simp, rule that[of "- (2 ^ 52)"], simp, simp)
  have "of_int m * (2::rat) powi k = of_int m' * 2 powi (k + 1)"
    by (simp add: m' power_int_add)
  then show ?thesis using rnd_dyadic_strict[of m' "k + 1"] m'(2) k by simp
qed

lemma rnd_of_int: "\<bar>m\<bar> \<le> 2 ^ 53 \<Longrightarrow> rnd (of_int m) = of_int m"
  using rnd_dyadic[of m 0] by simp

lemma rnd_of_nat: "k \<le> 2 ^ 53 \<Longrightarrow> rnd (of_nat k) = of_nat k"
  using rnd_of_int[of "int k"] by simp

lemma rnd_half: "\<bar>m\<bar> \<le> 2 ^ 53 \<Longrightarrow> rnd (of_int m / 2) = of_int m / 2"
  using rnd_dyadic[of m "- 1"] by simp

lemma epsilon_value: "epsilon = 3022314549036573 / 302231454903657293676544"
  unfolding epsilon_def by code_simp

lemma rnd_0: "rnd 0 = 0"
  by (simp add: rnd_def)


lemma dadd_nat: "a + b \<le> 2 ^ 53 \<Longrightarrow> dadd (of_nat a) (of_nat b) = of_nat (a + b)"
  using rnd_of_nat[of "a + b"] by (simp add: dadd_def)

lemma dadd_nat_1: "Suc a \<le> 2 ^ 53 \<Longrightarrow> dadd (of_nat a) 1 = of_nat (Suc a)"
  using dadd_nat[of a 1] by simp


section \<open>Facts about the command line\<close>

lemma atoi_range: "- (2 ^ 31) \<le> atoi s" "atoi s < 2 ^ 31"
  by (simp_all add: atoi_def wrap32_def)

lemmas atoi_eval = atoi_def strtol_def wrap32_def isspace_def isdigit_def

lemma grid_limit_floor_sqrt: "grid_limit = \<lfloor>sqrt (real_of_int INT_MAX)\<rfloor>"
proof -
  have lo: "(46340::real) \<le> sqrt 2147483647"
    by (rule real_le_rsqrt) simp
  have hi: "sqrt 2147483647 < (46341::real)"
    by (rule real_less_lsqrt) simp_all
  have "\<lfloor>sqrt (2147483647::real)\<rfloor> = 46340"
    using lo hi by (simp add: floor_eq_iff)
  then show ?thesis by (simp add: grid_limit_def INT_MAX_def)
qed

lemma smod_pos: "0 \<le> a \<Longrightarrow> 0 < b \<Longrightarrow> (a::int) smod b = a mod b"
  by (simp add: signed_modulo_int_def sgn_if)

section \<open>Facts about the iteration loop\<close>

lemma wrap32_id: "- (2 ^ 31) \<le> v \<Longrightarrow> v < 2 ^ 31 \<Longrightarrow> wrap32 v = v"
  by (simp add: wrap32_def)

lemma wrap32_range: "- (2 ^ 31) \<le> wrap32 v" "wrap32 v < 2 ^ 31"
  by (simp_all add: wrap32_def)

text \<open>Below \<open>INT_MAX\<close> iterations the counter never wraps and the loop returns.\<close>

lemma for_iter_returns:
  assumes "iterations < 2 ^ 31 - 1" "- (2 ^ 31) \<le> iter"
  shows "for_iter f iter iterations st = Some ((f ^^ nat (iterations + 1 - iter)) st)"
  using assms
proof (induction "nat (iterations + 1 - iter)" arbitrary: iter st)
  case 0
  then have "\<not> iter \<le> iterations" by simp
  then show ?case using 0 by (subst for_iter.simps) simp
next
  case (Suc k)
  then have le: "iter \<le> iterations" by simp
  have w: "wrap32 (iter + 1) = iter + 1" using Suc.prems le by (intro wrap32_id) simp_all
  have k: "k = nat (iterations + 1 - (iter + 1))" using Suc.hyps(2) by simp
  have "for_iter f (iter + 1) iterations (f st) = Some ((f ^^ k) (f st))"
    unfolding k using Suc.prems le by (intro Suc.hyps(1)[OF k]) simp_all
  moreover have "nat (iterations + 1 - iter) = Suc k" using Suc.hyps(2) by simp
  ultimately show ?case using le by (subst for_iter.simps) (simp add: w funpow_swap1)
qed

text \<open>
  Whatever the iteration count of type \<^verbatim>\<open>int\<close>, after \<open>m \<le> iterations + 1\<close> passes the
  loop stands at the counter \<open>m\<close> (wrapped, when \<open>m = 2 ^ 31\<close>) with the state \<open>f ^^ m\<close>.
\<close>

lemma for_iter_reaches:
  assumes "iterations < 2 ^ 31" "int m \<le> iterations + 1"
  shows "for_iter f 0 iterations st = for_iter f (wrap32 (int m)) iterations ((f ^^ m) st)"
  using assms(2)
proof (induction m)
  case 0
  show ?case by (simp add: wrap32_def)
next
  case (Suc m)
  have le: "int m \<le> iterations" using Suc.prems by simp
  have w: "wrap32 (int m) = int m" using le assms(1) by (intro wrap32_id) simp_all
  have "for_iter f 0 iterations st = for_iter f (int m) iterations ((f ^^ m) st)"
    using Suc by (simp add: w)
  also have "\<dots> = for_iter f (wrap32 (int m + 1)) iterations (f ((f ^^ m) st))"
    using le by (subst for_iter.simps) simp
  finally show ?case by (simp add: add.commute)
qed

text \<open>From \<open>INT_MAX\<close> iterations on the condition holds for every value of the counter.\<close>

lemma for_iter_some_bound:
  assumes "for_iter f iter iterations st = Some y"
  shows "\<not> (2 ^ 31 - 1 \<le> iterations \<and> iter < 2 ^ 31)"
proof (rule for_iter.raw_induct[where P = "\<lambda>f iter iterations st y.
          \<not> (2 ^ 31 - 1 \<le> iterations \<and> iter < 2 ^ 31)", OF _ assms])
  fix lp :: "('a \<Rightarrow> 'a) \<Rightarrow> int \<Rightarrow> int \<Rightarrow> 'a \<Rightarrow> 'a option" and f iter iterations st y
  assume IH: "\<And>g i n s z. lp g i n s = Some z \<Longrightarrow> \<not> (2 ^ 31 - 1 \<le> n \<and> i < 2 ^ 31)"
    and body: "(if iter \<le> iterations then lp f (wrap32 (iter + 1)) iterations (f st)
                else Some st) = Some y"
  show "\<not> (2 ^ 31 - 1 \<le> iterations \<and> iter < 2 ^ 31)"
  proof
    assume h: "2 ^ 31 - 1 \<le> iterations \<and> iter < 2 ^ 31"
    then have "iter \<le> iterations" by simp
    then have "lp f (wrap32 (iter + 1)) iterations (f st) = Some y" using body by simp
    then have "\<not> (2 ^ 31 - 1 \<le> iterations \<and> wrap32 (iter + 1) < 2 ^ 31)" by (rule IH)
    then show False using h wrap32_range(2)[of "iter + 1"] by simp
  qed
qed

lemma for_iter_never_returns:
  assumes "2 ^ 31 - 1 \<le> iterations" "iter < 2 ^ 31"
  shows "for_iter f iter iterations st = None"
  using for_iter_some_bound[of f iter iterations st] assms
  by (cases "for_iter f iter iterations st") auto

section \<open>Transpose: indices and traversals\<close>

lemma stride_upt_multiple:
  assumes "0 < k"
  shows "stride [a..<a + q * k] k = map (\<lambda>m. a + m * k) [0..<q]"
proof (induction q arbitrary: a)
  case 0
  show ?case by simp
next
  case (Suc q)
  have lt: "a < a + Suc q * k" using assms by simp
  have "stride [a..<a + Suc q * k] k = a # stride (drop (k - 1) [Suc a..<a + Suc q * k]) k"
    using lt by (simp add: upt_conv_Cons)
  also have "drop (k - 1) [Suc a..<a + Suc q * k] = [(a + k)..<(a + k) + q * k]"
    using assms by (simp add: drop_upt add.assoc)
  also have "stride \<dots> k = map (\<lambda>m. (a + k) + m * k) [0..<q]"
    by (rule Suc.IH)
  also have "a # map (\<lambda>m. (a + k) + m * k) [0..<q] = map (\<lambda>m. a + m * k) [0..<Suc q]"
    by (simp add: upt_conv_Cons[of 0 "Suc q"] map_Suc_upt[symmetric] del: upt_Suc) 
  finally show ?case .
qed

lemma stride_tiles:
  assumes "0 < k" "n mod k = 0"
  shows "stride [0..<n] k = map (\<lambda>m. m * k) [0..<n div k]"
proof -
  have "n = 0 + (n div k) * k" using assms by auto
  then have "stride [0..<n] k = stride [0..<0 + (n div k) * k] k" by simp
  also have "\<dots> = map (\<lambda>m. 0 + m * k) [0..<n div k]"
    by (rule stride_upt_multiple[OF assms(1)])
  finally show ?thesis by simp
qed

lemma tile_offset_lt:
  assumes "0 < k" "n mod k = 0" "m < n div k" "i < k"
  shows "m * k + i < (n::nat)"
proof -
  have "m * k + i < m * k + k" using assms by simp
  also have "\<dots> = Suc m * k" by simp
  also have "\<dots> \<le> (n div k) * k" using assms by (intro mult_le_mono1) simp
  also have "\<dots> = n" using assms by auto
  finally show ?thesis .
qed

lemma idx_lt: "i < n \<Longrightarrow> j < n \<Longrightarrow> i * n + j < n * (n::nat)"
proof -
  assume a: "i < n" "j < n"
  have "i * n + j < i * n + n" using a by simp
  also have "\<dots> = Suc i * n" by simp
  also have "\<dots> \<le> n * n" using a by (intro mult_le_mono1) simp
  finally show ?thesis .
qed

lemma idx_mod: "j < n \<Longrightarrow> (i * n + j) mod n = (j::nat)"
  by simp

lemma idx_div: "j < n \<Longrightarrow> (i * n + j) div n = (i::nat)"
  by simp

lemma idx_decomp: "(k div n) * n + k mod n = (k::nat)"
  by simp

lemma cell_of_idx: "k < n * n \<Longrightarrow> k div n < n \<and> k mod n < (n::nat)"
proof -
  assume k: "k < n * n"
  then have n: "0 < n" by (cases n) auto
  have "k div n < n" using k by (simp add: less_mult_imp_div_less)
  then show ?thesis using n by simp
qed

lemma tr_lt: "k < n * n \<Longrightarrow> tr n k < n * n"
  using cell_of_idx[of k n] idx_lt[of "k mod n" n "k div n"] by (simp add: tr_def)

text \<open>
  C9. In the tiled branch (\<open>1 \<le> tile_size < order\<close>, \<open>order % tile_size = 0\<close>) every
  index the loop body computes, \<open>(it + i) * order + (jt + j)\<close> and
  \<open>(jt + j) * order + (it + i)\<close>, for \<open>(it, jt)\<close> from the strided view and \<open>(i, j)\<close> from
  the tile view, is below \<open>order * order\<close> (and, a natural number, not below 0): no
  access to \<open>A\<close> or \<open>B\<close> is out of bounds. The tile origins are multiples of the tile size
  and both coordinates stay below the order.
\<close>

theorem tiled_indices_in_bounds:
  assumes "1 \<le> tile_size" "tile_size < order" "order mod tile_size = 0"
    and "(it, jt) \<in> set (s_range order tile_size)"
    and "(i, j) \<in> set (t_range tile_size)"
  shows "(it + i) * order + (jt + j) < order * order
       \<and> (jt + j) * order + (it + i) < order * order
       \<and> it + i < order \<and> jt + j < order
       \<and> it mod tile_size = 0 \<and> jt mod tile_size = 0"
proof -
  have k: "0 < tile_size" using assms(1) by simp
  have s: "stride [0..<order] tile_size = map (\<lambda>m. m * tile_size) [0..<order div tile_size]"
    by (rule stride_tiles[OF k assms(3)])
  have "it \<in> (\<lambda>m. m * tile_size) ` {..<order div tile_size}"
       "jt \<in> (\<lambda>m. m * tile_size) ` {..<order div tile_size}"
    using assms(4) by (auto simp: s_range_def cartesian_product_def s)
  then obtain a b where ab: "it = a * tile_size" "a < order div tile_size"
      "jt = b * tile_size" "b < order div tile_size"
    by blast
  have ij: "i < tile_size" "j < tile_size"
    using assms(5) by (auto simp: t_range_def cartesian_product_def)
  have 1: "it + i < order" unfolding ab by (rule tile_offset_lt[OF k assms(3) ab(2) ij(1)])
  have 2: "jt + j < order" unfolding ab by (rule tile_offset_lt[OF k assms(3) ab(4) ij(2)])
  show ?thesis using idx_lt[OF 1 2] idx_lt[OF 2 1] 1 2 by (simp add: ab)
qed

theorem tiled_indices_in_bounds_witness:
  "(2, 0) \<in> set (s_range 4 2) \<and> (1, 1) \<in> set (t_range 2)
   \<and> (2 + 1) * 4 + (0 + 1) < (4 * 4 :: nat) \<and> (0 + 1) * 4 + (2 + 1) < (4 * 4 :: nat)"
proof -
  have s: "(2, 0) \<in> set (s_range 4 2)"
    by (simp add: s_range_def cartesian_product_def stride_tiles)
  have t: "(1, 1) \<in> set (t_range 2)"
    by (simp add: t_range_def cartesian_product_def)
  show ?thesis
    using tiled_indices_in_bounds[of 2 4 2 0 1 1] s t by simp
qed

section \<open>Transpose: one pass\<close>

lemma fold_untiled_body:
  assumes "distinct ps" "set ps \<subseteq> {..<n} \<times> {..<n}" "length A = n * n" "length B = n * n"
  shows "fold (untiled_body n) ps (A, B) =
     (map (\<lambda>k. if (k mod n, k div n) \<in> set ps then dadd (A ! k) 1 else A ! k) [0..<n * n],
      map (\<lambda>k. if (k div n, k mod n) \<in> set ps then dadd (B ! k) (A ! tr n k) else B ! k)
        [0..<n * n])"
  using assms
proof (induction ps arbitrary: A B)
  case Nil
  have "map ((!) A) [0..<n * n] = A" "map ((!) B) [0..<n * n] = B"
    using map_nth[of A] map_nth[of B] Nil.prems by simp_all
  then show ?case by simp
next
  case (Cons p ps)
  obtain i j where p: "p = (i, j)" by (cases p)
  have ij: "i < n" "j < n" using Cons.prems(2) by (auto simp: p)
  define A1 where "A1 = A[j * n + i := dadd (A ! (j * n + i)) 1]"
  define B1 where "B1 = B[i * n + j := dadd (B ! (i * n + j)) (A ! (j * n + i))]"
  have step: "untiled_body n p (A, B) = (A1, B1)"
    by (simp add: untiled_body_def p A1_def B1_def Let_def)
  have len: "length A1 = n * n" "length B1 = n * n"
    using Cons.prems by (simp_all add: A1_def B1_def)
  have notin: "(i, j) \<notin> set ps" using Cons.prems(1) by (simp add: p)
  have IH: "fold (untiled_body n) ps (A1, B1) =
     (map (\<lambda>k. if (k mod n, k div n) \<in> set ps then dadd (A1 ! k) 1 else A1 ! k) [0..<n * n],
      map (\<lambda>k. if (k div n, k mod n) \<in> set ps then dadd (B1 ! k) (A1 ! tr n k) else B1 ! k)
        [0..<n * n])"
    using Cons.prems by (intro Cons.IH len) simp_all
  have Aeq: "(if (k mod n, k div n) \<in> set ps then dadd (A1 ! k) 1 else A1 ! k) =
             (if (k mod n, k div n) \<in> set (p # ps) then dadd (A ! k) 1 else A ! k)"
    if k: "k < n * n" for k
  proof -
    define c where "c = (k mod n, k div n)"
    show ?thesis
    proof (cases "k = j * n + i")
      case True
      have c: "c = (i, j)" using ij by (simp add: c_def True)
      have "A1 ! k = dadd (A ! k) 1"
        using k Cons.prems(3) by (simp add: A1_def True)
      then show ?thesis
        unfolding c_def[symmetric] using notin by (simp add: c p)
    next
      case False
      have "c \<noteq> (i, j)"
      proof
        assume "c = (i, j)"
        then have "k mod n = i" "k div n = j" by (simp_all add: c_def)
        then have "k = j * n + i" using idx_decomp[of k n] by simp
        with False show False by simp
      qed
      moreover have "A1 ! k = A ! k" using False by (simp add: A1_def)
      ultimately show ?thesis
        unfolding c_def[symmetric] by (simp add: p)
    qed
  qed
  have Beq: "(if (k div n, k mod n) \<in> set ps then dadd (B1 ! k) (A1 ! tr n k) else B1 ! k) =
             (if (k div n, k mod n) \<in> set (p # ps) then dadd (B ! k) (A ! tr n k) else B ! k)"
    if k: "k < n * n" for k
  proof -
    define c where "c = (k div n, k mod n)"
    show ?thesis
    proof (cases "k = i * n + j")
      case True
      have c: "c = (i, j)" using ij by (simp add: c_def True)
      have t: "tr n k = j * n + i" using ij by (simp add: tr_def True)
      have "B1 ! k = dadd (B ! k) (A ! tr n k)"
        using k Cons.prems(4) by (simp add: B1_def True[symmetric] t)
      then show ?thesis
        unfolding c_def[symmetric] using notin by (simp add: c p)
    next
      case False
      have ne: "c \<noteq> (i, j)"
      proof
        assume "c = (i, j)"
        then have "k div n = i" "k mod n = j" by (simp_all add: c_def)
        then have "k = i * n + j" using idx_decomp[of k n] by simp
        with False show False by simp
      qed
      have "tr n k \<noteq> j * n + i"
      proof
        assume "tr n k = j * n + i"
        then have e: "(k mod n) * n + k div n = j * n + i" by (simp add: tr_def)
        have dn: "k div n < n" using cell_of_idx[OF k] by simp
        have "k div n = i" using idx_mod[OF dn, of "k mod n"] idx_mod[OF ij(1), of j] e by simp
        moreover have "k mod n = j" using idx_div[OF dn, of "k mod n"] idx_div[OF ij(1), of j] e by simp
        ultimately show False using ne by (simp add: c_def)
      qed
      then have "A1 ! tr n k = A ! tr n k" by (simp add: A1_def)
      moreover have "B1 ! k = B ! k" using False by (simp add: B1_def)
      ultimately show ?thesis
        unfolding c_def[symmetric] using ne by (simp add: p)
    qed
  qed
  have "fold (untiled_body n) (p # ps) (A, B) = fold (untiled_body n) ps (A1, B1)"
    by (simp add: step)
  also note IH
  also have "map (\<lambda>k. if (k mod n, k div n) \<in> set ps then dadd (A1 ! k) 1 else A1 ! k) [0..<n * n]
      = map (\<lambda>k. if (k mod n, k div n) \<in> set (p # ps) then dadd (A ! k) 1 else A ! k) [0..<n * n]"
    by (rule map_cong[OF refl]) (use Aeq in simp)
  also have "map (\<lambda>k. if (k div n, k mod n) \<in> set ps then dadd (B1 ! k) (A1 ! tr n k) else B1 ! k)
        [0..<n * n]
      = map (\<lambda>k. if (k div n, k mod n) \<in> set (p # ps) then dadd (B ! k) (A ! tr n k) else B ! k)
        [0..<n * n]"
    by (rule map_cong[OF refl]) (use Beq in simp)
  finally show ?case .
qed

lemma map_nth_fun: "map (\<lambda>k. f (A ! k)) [0..<length A] = map f A"
  by (rule nth_equalityI) simp_all

lemma fold_untiled_body_all:
  assumes "distinct ps" "set ps = {..<n} \<times> {..<n}" "length A = n * n" "length B = n * n"
  shows "fold (untiled_body n) ps (A, B) =
     (map (\<lambda>a. dadd a 1) A, map (\<lambda>k. dadd (B ! k) (A ! tr n k)) [0..<n * n])"
proof -
  have "fold (untiled_body n) ps (A, B) =
     (map (\<lambda>k. if (k mod n, k div n) \<in> set ps then dadd (A ! k) 1 else A ! k) [0..<n * n],
      map (\<lambda>k. if (k div n, k mod n) \<in> set ps then dadd (B ! k) (A ! tr n k) else B ! k)
        [0..<n * n])"
    using assms by (intro fold_untiled_body) auto
  also have "\<dots> = (map (\<lambda>k. dadd (A ! k) 1) [0..<n * n],
                    map (\<lambda>k. dadd (B ! k) (A ! tr n k)) [0..<n * n])"
    using cell_of_idx[of _ n] by (simp add: assms(2))
  also have "map (\<lambda>k. dadd (A ! k) 1) [0..<n * n] = map (\<lambda>a. dadd a 1) A"
    using map_nth_fun[of "\<lambda>a. dadd a 1" A] by (simp add: assms(3))
  finally show ?thesis .
qed

lemma v_range_cells: "distinct (v_range n)" "set (v_range n) = {..<n} \<times> {..<n}"
  by (auto simp: v_range_def cartesian_product_def distinct_product)

lemma tiled_body_eq: "tiled_body n itjt ij = untiled_body n (fst itjt + fst ij, snd itjt + snd ij)"
  by (cases itjt; cases ij) (simp add: tiled_body_def untiled_body_def fun_eq_iff)

lemma fold_product:
  "fold (\<lambda>x. fold (f x) ys) xs st = fold (\<lambda>(x, y). f x y) (List.product xs ys) st"
  by (induction xs arbitrary: st) (simp_all add: fold_map comp_def)

lemma fold_tiled:
  "fold (\<lambda>itjt. fold (tiled_body n itjt) (t_range k)) (s_range n k) st =
   fold (untiled_body n) (tiled_cells n k) st"
  by (simp add: fold_product tiled_cells_def fold_map comp_def tiled_body_eq case_prod_unfold)

lemma tile_decomp_unique:
  assumes "0 < k" "i < k" "i' < k" "a * k + i = a' * k + (i'::nat)"
  shows "a = a' \<and> i = i'"
  using idx_div[OF assms(2), of a] idx_div[OF assms(3), of a']
    idx_mod[OF assms(2), of a] idx_mod[OF assms(3), of a'] assms(4) by simp

lemma tiled_cells_distinct:
  assumes k: "0 < k" and dv: "n mod k = 0"
  shows "distinct (tiled_cells n k)"
proof -
  have s: "stride [0..<n] k = map (\<lambda>m. m * k) [0..<n div k]"
    by (rule stride_tiles[OF k dv])
  have inj: "inj_on (\<lambda>m. m * k) (set [0..<n div k])"
    using k by (auto simp: inj_on_def)
  have ds: "distinct (stride [0..<n] k)"
    unfolding s using inj by (simp add: distinct_map)
  have d: "distinct (List.product (s_range n k) (t_range k))"
    by (simp add: s_range_def t_range_def cartesian_product_def distinct_product ds)
  have "inj_on (\<lambda>(itjt, ij). (fst itjt + fst ij, snd itjt + snd ij))
          (set (List.product (s_range n k) (t_range k)))"
  proof (rule inj_onI)
    fix x y
    assume x: "x \<in> set (List.product (s_range n k) (t_range k))"
       and y: "y \<in> set (List.product (s_range n k) (t_range k))"
       and e: "(case x of (itjt, ij) \<Rightarrow> (fst itjt + fst ij, snd itjt + snd ij)) =
               (case y of (itjt, ij) \<Rightarrow> (fst itjt + fst ij, snd itjt + snd ij))"
    obtain it jt i j where xx: "x = ((it, jt), (i, j))" by (metis surj_pair)
    obtain it' jt' i' j' where yy: "y = ((it', jt'), (i', j'))" by (metis surj_pair)
    have "it \<in> (\<lambda>m. m * k) ` {..<n div k}" "jt \<in> (\<lambda>m. m * k) ` {..<n div k}"
         "it' \<in> (\<lambda>m. m * k) ` {..<n div k}" "jt' \<in> (\<lambda>m. m * k) ` {..<n div k}"
      using x y by (auto simp: xx yy s_range_def cartesian_product_def s)
    then obtain a b a' b' where ab: "it = a * k" "jt = b * k" "it' = a' * k" "jt' = b' * k"
      by blast
    have lt: "i < k" "j < k" "i' < k" "j' < k"
      using x y by (auto simp: xx yy t_range_def cartesian_product_def)
    have e1: "a * k + i = a' * k + i'" and e2: "b * k + j = b' * k + j'"
      using e by (simp_all add: xx yy ab)
    show "x = y"
      using tile_decomp_unique[OF k lt(1) lt(3) e1] tile_decomp_unique[OF k lt(2) lt(4) e2]
      by (simp add: xx yy ab)
  qed
  then show ?thesis unfolding tiled_cells_def using d by (simp add: distinct_map)
qed

lemma tiled_cells_set:
  assumes k: "0 < k" and dv: "n mod k = 0"
  shows "set (tiled_cells n k) = {..<n} \<times> {..<n}"
proof (rule set_eqI)
  fix c :: "nat \<times> nat"
  obtain x y where c: "c = (x, y)" by (cases c)
  have s: "stride [0..<n] k = map (\<lambda>m. m * k) [0..<n div k]"
    by (rule stride_tiles[OF k dv])
  have nk: "n div k * k = n" using dv by auto
  show "c \<in> set (tiled_cells n k) \<longleftrightarrow> c \<in> {..<n} \<times> {..<n}"
  proof
    assume "c \<in> set (tiled_cells n k)"
    then obtain a b i j where "x = a * k + i" "y = b * k + j" "a < n div k" "b < n div k" "i < k" "j < k"
      by (auto simp: tiled_cells_def c s_range_def t_range_def cartesian_product_def s)
    then show "c \<in> {..<n} \<times> {..<n}"
      using tile_offset_lt[OF k dv] by (simp add: c)
  next
    assume "c \<in> {..<n} \<times> {..<n}"
    then have xy: "x < n" "y < n" by (simp_all add: c)
    have dx: "x div k < n div k" "y div k < n div k"
      using xy nk k by (metis less_mult_imp_div_less mult.commute)+
    have "((x div k * k, y div k * k), (x mod k, y mod k)) \<in> set (List.product (s_range n k) (t_range k))"
      using dx k by (simp add: s_range_def t_range_def cartesian_product_def s)
    then have "(\<lambda>(itjt, ij). (fst itjt + fst ij, snd itjt + snd ij))
                 ((x div k * k, y div k * k), (x mod k, y mod k)) \<in> set (tiled_cells n k)"
      unfolding tiled_cells_def set_map by (rule imageI)
    then show "c \<in> set (tiled_cells n k)" by (simp add: c)
  qed
qed

text \<open>what one pass does to arrays of the right size, whichever branch runs\<close>
lemma transpose_pass_eq:
  assumes tile: "n \<le> k \<or> (0 < k \<and> n mod k = 0)"
    and len: "length A = n * n" "length B = n * n"
  shows "transpose_pass n k (A, B) =
     (map (\<lambda>a. dadd a 1) A, map (\<lambda>c. dadd (B ! c) (A ! tr n c)) [0..<n * n])"
proof (cases "k < n")
  case True
  then have k: "0 < k" "n mod k = 0" using tile by auto
  show ?thesis
    using True
    by (simp add: transpose_pass_def fold_tiled
        fold_untiled_body_all[OF tiled_cells_distinct[OF k] tiled_cells_set[OF k] len])
next
  case False
  then show ?thesis
    by (simp add: transpose_pass_def
        fold_untiled_body_all[OF v_range_cells len])
qed

lemma transpose_pass_length:
  assumes "n \<le> k \<or> (0 < k \<and> n mod k = 0)" "length A = n * n" "length B = n * n"
  shows "length (fst (transpose_pass n k (A, B))) = n * n"
        "length (snd (transpose_pass n k (A, B))) = n * n"
  using assms by (simp_all add: transpose_pass_eq)





section \<open>Transpose: the result and its verification\<close>

lemma triangle_Suc: "Suc m * m div 2 = m * (m - 1) div 2 + m"
proof (cases m)
  case 0
  then show ?thesis by simp
next
  case (Suc j)
  have "Suc (Suc j) * Suc j = Suc j * j + Suc j * 2" by simp
  then have "Suc (Suc j) * Suc j div 2 = Suc j * j div 2 + Suc j"
    by (simp only: div_mult_self2) simp
  then show ?thesis by (simp add: Suc)
qed

lemma triangle_Suc': "(m + m * m) div 2 = m * (m - Suc 0) div 2 + m"
  using triangle_Suc[of m] by simp

lemma iota_exact:
  "a + len \<le> 2 ^ 53 \<Longrightarrow> iota len (of_nat a) = map of_nat [a..<a + len]"
proof (induction len arbitrary: a)
  case 0
  show ?case by simp
next
  case (Suc len)
  have "dadd (of_nat a) 1 = of_nat (Suc a)" using Suc.prems by (intro dadd_nat_1) simp
  moreover have "iota len (of_nat (Suc a)) = map of_nat [Suc a..<Suc a + len]"
    using Suc.prems by (intro Suc.IH) simp
  ultimately show ?case by (simp add: upt_conv_Cons)
qed

lemma initial_arrays:
  assumes "n * n \<le> 2 ^ 53"
  shows "iota (n * n) 0 = A_after n 0" "replicate (n * n) 0 = B_after n 0"
proof -
  show "iota (n * n) 0 = A_after n 0"
    using iota_exact[of 0 "n * n"] assms by (simp add: A_after_def)
  show "replicate (n * n) 0 = B_after n 0"
    by (simp add: B_after_def map_replicate_const)
qed

lemma transpose_pass_exact:
  assumes tile: "n \<le> k \<or> (0 < k \<and> n mod k = 0)"
    and bA: "n * n + m \<le> 2 ^ 53"
    and bB: "Suc m * (n * n - 1) + Suc m * m div 2 \<le> 2 ^ 53"
  shows "transpose_pass n k (A_after n m, B_after n m) = (A_after n (Suc m), B_after n (Suc m))"
proof -
  have len: "length (A_after n m) = n * n" "length (B_after n m) = n * n"
    by (simp_all add: A_after_def B_after_def)
  have A: "map (\<lambda>a. dadd a 1) (A_after n m) = A_after n (Suc m)"
    unfolding A_after_def map_map comp_def
  proof (rule map_cong[OF refl])
    fix c assume "c \<in> set [0..<n * n]"
    then have "Suc (c + m) \<le> 2 ^ 53" using bA by simp
    then show "dadd (of_nat (c + m)) 1 = of_nat (c + Suc m)"
      using dadd_nat_1[of "c + m"] by simp
  qed
  have B: "map (\<lambda>c. dadd (B_after n m ! c) (A_after n m ! tr n c)) [0..<n * n] = B_after n (Suc m)"
    unfolding B_after_def[of n "Suc m"]
  proof (rule map_cong[OF refl])
    fix c assume "c \<in> set [0..<n * n]"
    then have c: "c < n * n" by simp
    have t: "tr n c < n * n" by (rule tr_lt[OF c])
    then have t1: "tr n c \<le> n * n - 1" by simp
    have "Suc m * tr n c \<le> Suc m * (n * n - 1)" using t1 by (rule mult_le_mono2)
    then have bound: "Suc m * tr n c + Suc m * m div 2 \<le> 2 ^ 53" using bB by simp
    have eq: "(m * tr n c + m * (m - 1) div 2) + (tr n c + m) = Suc m * tr n c + Suc m * m div 2"
      by (simp add: triangle_Suc')
    have "dadd (B_after n m ! c) (A_after n m ! tr n c)
        = dadd (of_nat (m * tr n c + m * (m - 1) div 2)) (of_nat (tr n c + m))"
      using c t by (simp add: A_after_def B_after_def)
    also have "\<dots> = of_nat ((m * tr n c + m * (m - 1) div 2) + (tr n c + m))"
      by (rule dadd_nat) (use bound eq in simp)
    finally show "dadd (B_after n m ! c) (A_after n m ! tr n c)
        = of_nat (Suc m * tr n c + Suc m * (Suc m - 1) div 2)"
      using eq by simp
  qed
  show ?thesis using A B by (simp add: transpose_pass_eq[OF tile len])
qed

lemma transpose_passes_exact:
  assumes tile: "n \<le> k \<or> (0 < k \<and> n mod k = 0)"
    and b0: "n * n \<le> 2 ^ 53"
    and bA: "n * n + m \<le> Suc (2 ^ 53)"
    and bB: "m * (n * n - 1) + m * (m - 1) div 2 \<le> 2 ^ 53"
  shows "((transpose_pass n k) ^^ m) (iota (n * n) 0, replicate (n * n) 0)
       = (A_after n m, B_after n m)"
  using bA bB
proof (induction m)
  case 0
  show ?case using initial_arrays[OF b0] by simp
next
  case (Suc m)
  have 1: "n * n + m \<le> 2 ^ 53" using Suc.prems(1) by simp
  have 2: "Suc m * (n * n - 1) + Suc m * m div 2 \<le> 2 ^ 53" using Suc.prems(2) by simp
  have "m * (n * n - 1) + m * (m - 1) div 2 \<le> Suc m * (n * n - 1) + Suc m * m div 2"
    by (simp add: triangle_Suc')
  then have 3: "m * (n * n - 1) + m * (m - 1) div 2 \<le> 2 ^ 53" using 2 by simp
  have "((transpose_pass n k) ^^ m) (iota (n * n) 0, replicate (n * n) 0)
       = (A_after n m, B_after n m)"
    using 1 3 by (intro Suc.IH) simp_all
  then show ?case by (simp add: transpose_pass_exact[OF tile 1 2])
qed

lemma half_triangle: "(of_nat (Suc N) :: rat) * (of_nat N / 2) = of_nat (Suc N * N div 2)"
proof -
  have "even (Suc N * N)" by simp
  then obtain j where j: "Suc N * N = 2 * j" by (elim evenE)
  have "(of_nat (Suc N) :: rat) * of_nat N = of_nat (Suc N * N)" by (simp only: of_nat_mult)
  also have "\<dots> = 2 * of_nat j" by (simp only: j of_nat_mult of_nat_numeral)
  finally have "(of_nat (Suc N) :: rat) * (of_nat N / 2) = of_nat j" by simp
  moreover have "Suc N * N div 2 = j" by (simp only: j nonzero_mult_div_cancel_left)
  ultimately show ?thesis by simp
qed

lemma addit_exact:
  assumes "Suc N \<le> 2 ^ 53" "Suc N * N div 2 \<le> 2 ^ 53"
  shows "addit (int N) = of_nat (Suc N * N div 2)"
proof -
  have n: "double_of_int (int N) = of_nat N"
    using rnd_of_nat[of N] assms(1) by (simp add: double_of_int_def)
  have a: "dadd (of_nat N) 1 = of_nat (Suc N)" by (rule dadd_nat_1[OF assms(1)])
  have h: "ddiv (of_nat N) 2 = of_nat N / 2"
    using rnd_half[of "int N"] assms(1) by (simp add: ddiv_def)
  show ?thesis
    unfolding addit_def n a h dmul_def half_triangle by (rule rnd_of_nat[OF assms(2)])
qed

lemma reference_exact:
  assumes "Suc N \<le> 2 ^ 53" "ij * Suc N + Suc N * N div 2 \<le> 2 ^ 53"
  shows "reference (int N) ij = of_nat (ij * Suc N + Suc N * N div 2)"
proof -
  have "ij \<le> ij * Suc N" by simp
  then have ij: "ij \<le> 2 ^ 53" using assms(2) by linarith
  have n: "double_of_int (int N) = of_nat N"
    using rnd_of_nat[of N] assms(1) by (simp add: double_of_int_def)
  have c: "double_of_nat ij = of_nat ij"
    using rnd_of_nat[OF ij] by (simp add: double_of_nat_def)
  have a: "dadd 1 (of_nat N) = of_nat (Suc N)"
    using dadd_nat_1[OF assms(1)] by (simp add: dadd_def add.commute)
  have "ij * Suc N \<le> 2 ^ 53" using assms(2) by linarith
  then have "rnd (of_nat (ij * Suc N)) = of_nat (ij * Suc N)" by (rule rnd_of_nat)
  then have m: "dmul (of_nat ij) (of_nat (Suc N)) = of_nat (ij * Suc N)"
    unfolding dmul_def by (simp only: of_nat_mult)
  have t: "addit (int N) = of_nat (Suc N * N div 2)"
    using assms by (intro addit_exact) simp_all
  show ?thesis
    unfolding reference_def n c a m t by (rule dadd_nat[OF assms(2)])
qed

lemma fold_keeps_zero:
  "(\<And>x. x \<in> set xs \<Longrightarrow> f x 0 = (0::rat)) \<Longrightarrow> fold f xs 0 = 0"
  by (induction xs) simp_all

lemma tr_idx: "i < n \<Longrightarrow> j < n \<Longrightarrow> tr n (j * n + i) = i * n + j"
  by (simp add: tr_def)

lemma transpose_abserr_exact:
  assumes N: "Suc N \<le> 2 ^ 53"
    and b: "(n * n - 1) * Suc N + Suc N * N div 2 \<le> 2 ^ 53"
  shows "transpose_abserr (int N) n (B_after n (Suc N)) = 0"
  unfolding transpose_abserr_def
proof (rule fold_keeps_zero, rule fold_keeps_zero)
  fix i j assume "i \<in> set [0..<n]" "j \<in> set [0..<n]"
  then have ij: "i < n" "j < n" by simp_all
  have lt: "i * n + j < n * n" "j * n + i < n * n" using idx_lt ij by simp_all
  then have "i * n + j \<le> n * n - 1" by simp
  then have "(i * n + j) * Suc N \<le> (n * n - 1) * Suc N" by (rule mult_le_mono1)
  then have bound: "(i * n + j) * Suc N + Suc N * N div 2 \<le> 2 ^ 53" using b by simp
  have r: "reference (int N) (i * n + j) = of_nat ((i * n + j) * Suc N + Suc N * N div 2)"
    by (rule reference_exact[OF N bound])
  have v: "B_after n (Suc N) ! (j * n + i) = of_nat ((i * n + j) * Suc N + Suc N * N div 2)"
    using lt(2) by (simp add: B_after_def tr_idx[OF ij] mult.commute)
  show "(let ij = i * n + j; ji = j * n + i
         in dadd 0 (dabs (dsub (B_after n (Suc N) ! ji) (reference (int N) ij)))) = 0"
    unfolding Let_def r v by (simp add: dsub_def dabs_def dadd_def rnd_0)
qed

lemma exactness_bounds:
  assumes "1 \<le> N" "1 \<le> n" and b: "(n * n - 1) * Suc N + Suc N * N div 2 \<le> K"
    and K: "2 \<le> (K::nat)"
  shows "n * n + N \<le> K" "Suc N \<le> K"
proof -
  have T: "N \<le> Suc N * N div 2"
  proof -
    have "2 * N \<le> Suc N * N" using assms(1) by simp
    then have "2 * N div 2 \<le> Suc N * N div 2" by (rule div_le_mono)
    then show ?thesis by simp
  qed
  have X2: "2 * (n * n - 1) \<le> (n * n - 1) * Suc N"
    using assms(1) by (simp add: mult.commute)
  have T2: "2 \<le> N \<Longrightarrow> Suc N \<le> Suc N * N div 2"
  proof -
    assume "2 \<le> N"
    then have "Suc N * 2 \<le> Suc N * N" by (intro mult_le_mono2)
    then have "Suc N * 2 div 2 \<le> Suc N * N div 2" by (rule div_le_mono)
    then show ?thesis by (simp only: nonzero_mult_div_cancel_right)
  qed
  have nn: "1 \<le> n * n" using assms(2) by (simp add: Suc_le_eq)
  show 1: "n * n + N \<le> K"
  proof (cases "n * n = 1")
    case False
    then have "2 \<le> n * n" using nn by linarith
    then have "n * n + N \<le> 2 * (n * n - 1) + N" by simp
    then show ?thesis using X2 T b by linarith
  next
    case True
    show ?thesis
    proof (cases "2 \<le> N")
      case True
      then show ?thesis using T2 b \<open>n * n = 1\<close> by simp
    next
      case False
      then have "N = 1" using assms(1) by simp
      then show ?thesis using K \<open>n * n = 1\<close> by simp
    qed
  qed
  show "Suc N \<le> K" using 1 nn by linarith
qed

lemma exact_iterations_small:
  assumes "Suc N * N div 2 \<le> 2 ^ 53"
  shows "int N < 2 ^ 31 - 1"
proof (rule ccontr)
  assume "\<not> int N < 2 ^ 31 - 1"
  then have N: "2147483647 \<le> N" by simp
  then have "2147483648 * 2147483647 \<le> Suc N * N" by (intro mult_le_mono) simp_all
  then have "2147483648 * 2147483647 div 2 \<le> Suc N * N div 2" by (rule div_le_mono)
  then show False using assms by simp
qed

lemma transpose_compute_exact:
  fixes n N k :: nat
  assumes N: "1 \<le> N" and n: "1 \<le> n"
    and tile: "n \<le> k \<or> (0 < k \<and> n mod k = 0)"
    and b: "(n * n - 1) * Suc N + Suc N * N div 2 \<le> 2 ^ 53"
  shows "transpose_compute \<lparr>t_iterations = int N, t_order = int n, t_tile_size = int k\<rparr>
       = Some (A_after n (Suc N), B_after n (Suc N))"
proof -
  have b1: "n * n + N \<le> 2 ^ 53" "Suc N \<le> 2 ^ 53"
    using exactness_bounds[OF N n b] by simp_all
  have b0: "n * n \<le> 2 ^ 53" using b1(1) by simp
  have bA: "n * n + Suc N \<le> Suc (2 ^ 53)" using b1(1) by simp
  have bB: "Suc N * (n * n - 1) + Suc N * (Suc N - 1) div 2 \<le> 2 ^ 53"
    using b by (simp add: mult.commute)
  have "Suc N * N div 2 \<le> 2 ^ 53" using b by simp
  then have small: "int N < 2 ^ 31 - 1" by (rule exact_iterations_small)
  have "nat (int N + 1) = Suc N" by simp
  then show ?thesis
    using transpose_passes_exact[OF tile b0 bA bB]
    by (simp add: transpose_compute_def Let_def transpose_loop_def for_iter_returns[OF small]
          del: funpow.simps)
qed

lemma single_cell_pass: "transpose_pass 1 1 ([a], [b]) = ([dadd a 1], [dadd b a])"
  by (simp add: transpose_pass_eq tr_def)

lemma rnd_steps:
  "dadd 134217728 1 = 134217729"
  "dadd 134217729 1 = 134217730"
  "dadd 134217730 1 = 134217731"
  "dadd 9007199187632128 134217728 = 9007199321849856"
  "dadd 9007199321849856 134217729 = 9007199456067584"
  "dadd 9007199456067584 134217730 = 9007199590285314"
  unfolding dadd_def by code_simp+

lemma abserr_at_failure: "transpose_abserr 134217730 1 [9007199590285314] = 2"
  unfolding transpose_abserr_def reference_def addit_def double_of_int_def double_of_nat_def
    dadd_def dmul_def ddiv_def dsub_def dabs_def
  by code_simp

lemma compute_at_failure:
  "transpose_compute \<lparr>t_iterations = 134217730, t_order = 1, t_tile_size = 1\<rparr>
     = Some ([134217731], [9007199590285314])"
proof -
  let ?f = "transpose_pass 1 1"
  let ?init = "(iota (1 * 1) 0, replicate (1 * 1) 0)"
  have first: "(?f ^^ 134217728) ?init = (A_after 1 134217728, B_after 1 134217728)"
    by (rule transpose_passes_exact) simp_all
  have vals: "A_after 1 134217728 = [134217728]" "B_after 1 134217728 = [9007199187632128]"
    by (simp_all add: A_after_def B_after_def tr_def)
  have "(134217731::nat) = 3 + 134217728" by simp
  then have "(?f ^^ 134217731) ?init = (?f ^^ 3) ((?f ^^ 134217728) ?init)"
    by (simp only: funpow_add comp_apply)
  also have "\<dots> = ?f (?f (?f ([134217728], [9007199187632128])))"
    by (simp only: first vals) (simp add: numeral_3_eq_3)
  also have "\<dots> = ([134217731], [9007199590285314])"
    by (simp only: single_cell_pass rnd_steps)
  finally have "(?f ^^ 134217731) ?init = ([134217731], [9007199590285314])" .
  moreover have "nat (134217730 + 1 - 0) = (134217731::nat)" by simp
  ultimately show ?thesis
    by (simp add: transpose_compute_def Let_def transpose_loop_def for_iter_returns
          del: funpow.simps iota.simps replicate.simps)
qed

text \<open>
  C1, as the spec has it, fails for large runs. With \<open>order = 1\<close> and 134217730
  iterations (a valid configuration, a few seconds of run time) the sums that \<open>B[0]\<close>
  goes through pass \<open>2 ^ 53\<close>, where a double no longer holds every integer: the sum
  9007199456067585 is rounded to 9007199456067584, the loop ends with
  \<open>B[0] = 9007199590285314\<close>, one below the value the claim gives, and the verifier,
  whose own reference is rounded to 9007199590285316, finds the error 2, reports it and
  returns 1.
\<close>

theorem transpose_validation_counterexample:
  "transpose_read_input 46340 [''transpose'', ''134217730'', ''1''] =
     Inr \<lparr>t_iterations = 134217730, t_order = 1, t_tile_size = 1\<rparr>
   \<and> transpose_main 46340 [''transpose'', ''134217730'', ''1''] =
     Some \<lparr>exit_code = 1,
      stdout = [VersionBanner, Text ''C++11/ranges Matrix transpose: B = A^T'',
                IntParam ''Number of iterations = '' 134217730,
                IntParam ''Matrix order         = '' 1,
                IntParam ''Tile size            = '' 1,
                AggregateError 2 epsilon],
      stderr = [],
      final_arrays = Some ([134217731], [9007199590285314])\<rparr>
   \<and> \<bar>9007199590285314 - ((0 * 1 + 0) * (1 + 134217730) + (134217730 + 1) * 134217730 / 2)\<bar>
       = (1 :: rat)
   \<and> \<not> (1 :: rat) < 1 / 10 ^ 8"
proof -
  have a: "atoi ''134217730'' = 134217730" "atoi ''1'' = 1" by (simp_all add: atoi_eval)
  have cfg: "transpose_read_input 46340 [''transpose'', ''134217730'', ''1''] =
     Inr \<lparr>t_iterations = 134217730, t_order = 1, t_tile_size = 1\<rparr>"
    by (simp add: transpose_read_input_def a)
  have e: "transpose_abserr 134217730 (Suc 0) [9007199590285314] = 2"
    using abserr_at_failure by simp
  have "\<not> (2 :: rat) < epsilon" by (simp add: epsilon_value)
  then have "transpose_main 46340 [''transpose'', ''134217730'', ''1''] =
     Some \<lparr>exit_code = 1,
      stdout = [VersionBanner, Text ''C++11/ranges Matrix transpose: B = A^T'',
                IntParam ''Number of iterations = '' 134217730,
                IntParam ''Matrix order         = '' 1,
                IntParam ''Tile size            = '' 1,
                AggregateError 2 epsilon],
      stderr = [],
      final_arrays = Some ([134217731], [9007199590285314])\<rparr>"
    by (simp add: transpose_main_def cfg compute_at_failure e Let_def)
  then show ?thesis using cfg by simp
qed

text \<open>
  C1, amended. For every valid transpose configuration (\<open>iterations \<ge> 1\<close>,
  \<open>order \<ge> 1\<close>, tile size at least the order or a positive divisor of it) whose largest
  reference value \<open>(order\<^sup>2 - 1) * (iterations + 1) + (iterations + 1) * iterations / 2\<close> is at
  most \<open>2 ^ 53\<close>, the loop runs \<open>iterations + 1\<close> passes, after which every cell satisfies
  \<open>B[j * order + i] = (i * order + j) * (1 + iterations) + (iterations + 1) * iterations / 2\<close>
  exactly; the verifier's sum of absolute deviations is 0, below \<open>1e-8\<close>, and the program
  prints "Solution validates" and returns 0.
\<close>

theorem transpose_validates_when_exact:
  assumes it: "1 \<le> t_iterations c" and ord: "1 \<le> t_order c"
    and tile: "t_order c \<le> t_tile_size c \<or> (0 < t_tile_size c \<and> t_order c mod t_tile_size c = 0)"
    and exact: "(t_order c * t_order c - 1) * (t_iterations c + 1)
                  + (t_iterations c + 1) * t_iterations c div 2 \<le> 2 ^ 53"
  shows "\<exists>A B. transpose_compute c = Some (A, B)
      \<and> length B = nat (t_order c * t_order c)
      \<and> (\<forall>i j. 0 \<le> i \<and> i < t_order c \<and> 0 \<le> j \<and> j < t_order c \<longrightarrow>
            B ! nat (j * t_order c + i) =
              of_int ((i * t_order c + j) * (1 + t_iterations c)
                        + (t_iterations c + 1) * t_iterations c div 2))
      \<and> transpose_abserr (t_iterations c) (nat (t_order c)) B = 0
      \<and> (transpose_read_input max_matrix_size argv = Inr c \<longrightarrow>
            transpose_main max_matrix_size argv =
              Some \<lparr>exit_code = 0,
                    stdout =
                      [VersionBanner, Text ''C++11/ranges Matrix transpose: B = A^T'',
                       IntParam ''Number of iterations = '' (t_iterations c),
                       IntParam ''Matrix order         = '' (t_order c),
                       IntParam ''Tile size            = '' (t_tile_size c),
                       Text ''Solution validates'', RateLine],
                    stderr = [], final_arrays = Some (A, B)\<rparr>)"
proof -
  define N where "N = nat (t_iterations c)"
  define n where "n = nat (t_order c)"
  define k where "k = nat (t_tile_size c)"
  have iN: "t_iterations c = int N" and inn: "t_order c = int n"
    using it ord by (simp_all add: N_def n_def)
  have N1: "1 \<le> N" and n1: "1 \<le> n" using it ord by (simp_all add: N_def n_def)
  have tk: "n \<le> k \<or> (0 < k \<and> n mod k = 0)"
  proof (cases "t_order c \<le> t_tile_size c")
    case True
    then have "nat (t_order c) \<le> nat (t_tile_size c)" by (rule nat_mono)
    then show ?thesis by (simp add: n_def k_def)
  next
    case False
    then have "0 < t_tile_size c" "t_order c mod t_tile_size c = 0" using tile by simp_all
    then show ?thesis using ord by (simp add: n_def k_def nat_mod_distrib[symmetric])
  qed
  have "1 \<le> n * n" using n1 by (simp add: Suc_le_eq)
  then have nn: "int (n * n - 1) = int n * int n - 1" by (simp add: of_nat_diff)
  have "int ((n * n - 1) * Suc N + Suc N * N div 2)
      = int (n * n - 1) * int (Suc N) + int (Suc N) * int N div 2"
    by (simp only: of_nat_add of_nat_mult zdiv_int of_nat_numeral)
  also have "\<dots> = (int n * int n - 1) * (int N + 1) + (int N + 1) * int N div 2"
    by (simp only: nn) (simp add: add.commute)
  also have "\<dots> \<le> 2 ^ 53" using exact by (simp add: iN inn)
  finally have b: "(n * n - 1) * Suc N + Suc N * N div 2 \<le> 2 ^ 53"
    by (simp only: of_nat_le_iff[symmetric, where 'a = int]) simp
  have cmp: "transpose_compute c = Some (A_after n (Suc N), B_after n (Suc N))"
  proof (cases "t_order c \<le> t_tile_size c")
    case True
    then have "c = \<lparr>t_iterations = int N, t_order = int n, t_tile_size = int k\<rparr>"
      using ord by (simp add: iN[symmetric] inn[symmetric] k_def)
    then show ?thesis using transpose_compute_exact[OF N1 n1 tk b] by simp
  next
    case False
    then have "0 < t_tile_size c" using tile by simp
    then have "c = \<lparr>t_iterations = int N, t_order = int n, t_tile_size = int k\<rparr>"
      by (simp add: iN[symmetric] inn[symmetric] k_def)
    then show ?thesis using transpose_compute_exact[OF N1 n1 tk b] by simp
  qed
  have len: "length (B_after n (Suc N)) = nat (t_order c * t_order c)"
    by (simp add: B_after_def inn nat_mult_distrib)
  have cells: "B_after n (Suc N) ! nat (j * t_order c + i) =
      of_int ((i * t_order c + j) * (1 + t_iterations c)
                + (t_iterations c + 1) * t_iterations c div 2)"
    if ij: "0 \<le> i \<and> i < t_order c \<and> 0 \<le> j \<and> j < t_order c" for i j
  proof -
    define i' where "i' = nat i"
    define j' where "j' = nat j"
    have i: "i = int i'" and j: "j = int j'" using ij by (simp_all add: i'_def j'_def)
    have lt: "i' < n" "j' < n" using ij by (simp_all add: i'_def j'_def n_def)
    have idx: "nat (j * t_order c + i) = j' * n + i'"
      by (simp add: i j inn nat_add_distrib nat_mult_distrib)
    have "B_after n (Suc N) ! (j' * n + i') = of_nat (Suc N * (i' * n + j') + Suc N * N div 2)"
      using idx_lt[OF lt(2) lt(1)] by (simp add: B_after_def tr_idx[OF lt])
    also have "\<dots> = of_int (int (Suc N * (i' * n + j') + Suc N * N div 2))"
      by (simp only: of_int_of_nat_eq)
    also have "int (Suc N * (i' * n + j') + Suc N * N div 2)
        = (i * t_order c + j) * (1 + t_iterations c) + (t_iterations c + 1) * t_iterations c div 2"
      by (simp add: i j iN inn zdiv_int algebra_simps)
    finally show ?thesis by (simp only: idx)
  qed
  have err: "transpose_abserr (t_iterations c) (nat (t_order c)) (B_after n (Suc N)) = 0"
    using transpose_abserr_exact[OF _ b] exactness_bounds(2)[OF N1 n1 b]
    by (simp add: iN n_def[symmetric])
  have eps: "(0::rat) < epsilon" by (simp add: epsilon_value)
  have main: "transpose_read_input max_matrix_size argv = Inr c \<longrightarrow>
            transpose_main max_matrix_size argv =
              Some \<lparr>exit_code = 0,
                    stdout =
                      [VersionBanner, Text ''C++11/ranges Matrix transpose: B = A^T'',
                       IntParam ''Number of iterations = '' (t_iterations c),
                       IntParam ''Matrix order         = '' (t_order c),
                       IntParam ''Tile size            = '' (t_tile_size c),
                       Text ''Solution validates'', RateLine],
                    stderr = [],
                    final_arrays = Some (A_after n (Suc N), B_after n (Suc N))\<rparr>"
    using err eps by (simp add: transpose_main_def Let_def cmp)
  show ?thesis
    using cmp len cells err main by blast
qed

theorem transpose_validates_when_exact_witness:
  "transpose_read_input 46340 [''transpose'', ''2'', ''4'', ''2''] =
     Inr \<lparr>t_iterations = 2, t_order = 4, t_tile_size = 2\<rparr>
   \<and> (4 * 4 - 1) * (2 + 1) + (2 + 1) * 2 div 2 \<le> (2 ^ 53 :: int)
   \<and> map_option exit_code (transpose_main 46340 [''transpose'', ''2'', ''4'', ''2'']) = Some 0
   \<and> map_option (transpose_abserr 2 4 \<circ> snd)
        (transpose_compute \<lparr>t_iterations = 2, t_order = 4, t_tile_size = 2\<rparr>) = Some 0"
proof -
  have a: "atoi ''2'' = 2" "atoi ''4'' = 4" by (simp_all add: atoi_eval)
  have cfg: "transpose_read_input 46340 [''transpose'', ''2'', ''4'', ''2''] =
     Inr \<lparr>t_iterations = 2, t_order = 4, t_tile_size = 2\<rparr>"
    by (simp add: transpose_read_input_def a smod_pos)
  show ?thesis
    using transpose_validates_when_exact[of "\<lparr>t_iterations = 2, t_order = 4, t_tile_size = 2\<rparr>"
        46340 "[''transpose'', ''2'', ''4'', ''2'']"] cfg
    by auto
qed

section \<open>Stencil: the compute loop\<close>

lemma fold_pair_split:
  "fold (\<lambda>p st. case st of (A, B) \<Rightarrow> (f p A, h p B)) ps (A, B) = (fold f ps A, fold h ps B)"
  by (induction ps arbitrary: A B) simp_all

lemma fold_cells_update:
  assumes "distinct ps" "set ps \<subseteq> {..<n} \<times> {..<n}" "length A = n * n"
  shows "fold (\<lambda>ij A. case ij of (i, j) \<Rightarrow> A[i * n + j := g i j (A ! (i * n + j))]) ps A =
     map (\<lambda>c. if (c div n, c mod n) \<in> set ps then g (c div n) (c mod n) (A ! c) else A ! c)
       [0..<n * n]"
  using assms
proof (induction ps arbitrary: A)
  case Nil
  have "map ((!) A) [0..<n * n] = A" using map_nth[of A] Nil.prems by simp
  then show ?case by simp
next
  case (Cons p ps)
  obtain i j where p: "p = (i, j)" by (cases p)
  have ij: "i < n" "j < n" using Cons.prems(2) by (auto simp: p)
  define A1 where "A1 = A[i * n + j := g i j (A ! (i * n + j))]"
  have len: "length A1 = n * n" using Cons.prems by (simp add: A1_def)
  have notin: "(i, j) \<notin> set ps" using Cons.prems(1) by (simp add: p)
  have d: "distinct ps" using Cons.prems(1) by simp
  have sub: "set ps \<subseteq> {..<n} \<times> {..<n}" using Cons.prems(2) by simp
  have eq: "(if (c div n, c mod n) \<in> set ps then g (c div n) (c mod n) (A1 ! c) else A1 ! c) =
            (if (c div n, c mod n) \<in> set (p # ps) then g (c div n) (c mod n) (A ! c) else A ! c)"
    if c: "c < n * n" for c
  proof -
    define q where "q = (c div n, c mod n)"
    show ?thesis
    proof (cases "c = i * n + j")
      case True
      have q: "q = (i, j)" using ij by (simp add: q_def True)
      have dm: "c div n = i" "c mod n = j" using ij by (simp_all add: True)
      have "A1 ! c = g i j (A ! c)" using c Cons.prems(3) by (simp add: A1_def True)
      then show ?thesis
        unfolding q_def[symmetric] using notin by (simp add: q p dm)
    next
      case False
      have "q \<noteq> (i, j)"
      proof
        assume "q = (i, j)"
        then have "c div n = i" "c mod n = j" by (simp_all add: q_def)
        then have "c = i * n + j" using idx_decomp[of c n] by simp
        with False show False by simp
      qed
      moreover have "A1 ! c = A ! c" using False by (simp add: A1_def)
      ultimately show ?thesis
        unfolding q_def[symmetric] by (simp add: p)
    qed
  qed
  have "fold (\<lambda>ij A. case ij of (i, j) \<Rightarrow> A[i * n + j := g i j (A ! (i * n + j))]) (p # ps) A
      = fold (\<lambda>ij A. case ij of (i, j) \<Rightarrow> A[i * n + j := g i j (A ! (i * n + j))]) ps A1"
    by (simp add: p A1_def)
  also have "\<dots> = map (\<lambda>c. if (c div n, c mod n) \<in> set ps then g (c div n) (c mod n) (A1 ! c)
                           else A1 ! c) [0..<n * n]"
    by (rule Cons.IH[OF d sub len])
  also have "\<dots> = map (\<lambda>c. if (c div n, c mod n) \<in> set (p # ps)
                           then g (c div n) (c mod n) (A ! c) else A ! c) [0..<n * n]"
    by (rule map_cong[OF refl]) (use eq in simp)
  finally show ?case .
qed

lemma full_range_cells:
  "distinct (range_cells \<lparr>rows_begin = 0, rows_end = n, rows_grainsize = g,
                          cols_begin = 0, cols_end = n, cols_grainsize = g\<rparr>)"
  "set (range_cells \<lparr>rows_begin = 0, rows_end = n, rows_grainsize = g,
                     cols_begin = 0, cols_end = n, cols_grainsize = g\<rparr>) = {..<n} \<times> {..<n}"
  by (auto simp: range_cells_def cartesian_product_def distinct_product)

lemma fold_cells_update_all:
  assumes "distinct ps" "set ps = {..<n} \<times> {..<n}" "length A = n * n"
  shows "fold (\<lambda>ij A. case ij of (i, j) \<Rightarrow> A[i * n + j := g i j (A ! (i * n + j))]) ps A =
     map (\<lambda>c. g (c div n) (c mod n) (A ! c)) [0..<n * n]"
proof -
  have "fold (\<lambda>ij A. case ij of (i, j) \<Rightarrow> A[i * n + j := g i j (A ! (i * n + j))]) ps A =
     map (\<lambda>c. if (c div n, c mod n) \<in> set ps then g (c div n) (c mod n) (A ! c) else A ! c)
       [0..<n * n]"
    using assms by (intro fold_cells_update) simp_all
  also have "\<dots> = map (\<lambda>c. g (c div n) (c mod n) (A ! c)) [0..<n * n]"
    using cell_of_idx[of _ n] by (simp add: assms(2))
  finally show ?thesis .
qed

lemma ParallelAdd_eq:
  assumes "length A = n * n"
  shows "ParallelAdd n tile_size A = map (\<lambda>a. dadd a 1) A"
proof -
  have "ParallelAdd n tile_size A = map (\<lambda>c. dadd (A ! c) 1) [0..<n * n]"
    unfolding ParallelAdd_def parallel_for_def Add_def
    by (rule fold_cells_update_all[OF full_range_cells assms, where g = "\<lambda>i j a. dadd a 1"])
  also have "\<dots> = map (\<lambda>a. dadd a 1) A"
    using map_nth_fun[of "\<lambda>a. dadd a 1" A] by (simp add: assms)
  finally show ?thesis .
qed

lemma ParallelInitialize_eq:
  assumes "length A = n * n" "length B = n * n"
  shows "ParallelInitialize n tile_size (A, B) =
     (map (\<lambda>c. double_of_nat (c div n + c mod n)) [0..<n * n], replicate (n * n) 0)"
proof -
  let ?r = "\<lparr>rows_begin = 0, rows_end = n, rows_grainsize = tile_size,
             cols_begin = 0, cols_end = n, cols_grainsize = tile_size\<rparr>"
  have "ParallelInitialize n tile_size (A, B) =
      fold (\<lambda>p st. case st of (A, B) \<Rightarrow>
              ((case p of (i, j) \<Rightarrow> A[i * n + j := double_of_nat (i + j)]),
               (case p of (i, j) \<Rightarrow> B[i * n + j := 0])))
        (range_cells ?r) (A, B)"
    unfolding ParallelInitialize_def parallel_for_def Initialize_def
    by (rule arg_cong[where f = "\<lambda>f. fold f (range_cells ?r) (A, B)"]) (auto simp: fun_eq_iff)
  also have "\<dots> =
      (fold (\<lambda>p A. case p of (i, j) \<Rightarrow> A[i * n + j := double_of_nat (i + j)]) (range_cells ?r) A,
       fold (\<lambda>p B. case p of (i, j) \<Rightarrow> B[i * n + j := 0]) (range_cells ?r) B)"
    by (rule fold_pair_split)
  also have "fold (\<lambda>p A. case p of (i, j) \<Rightarrow> A[i * n + j := double_of_nat (i + j)]) (range_cells ?r) A
      = map (\<lambda>c. double_of_nat (c div n + c mod n)) [0..<n * n]"
    by (rule fold_cells_update_all[OF full_range_cells assms(1),
          where g = "\<lambda>i j a. double_of_nat (i + j)"])
  also have "fold (\<lambda>p B. case p of (i, j) \<Rightarrow> B[i * n + j := 0]) (range_cells ?r) B
      = map (\<lambda>c. 0) [0..<n * n]"
    by (rule fold_cells_update_all[OF full_range_cells assms(2), where g = "\<lambda>i j a. 0"])
  also have "map (\<lambda>c. 0::rat) [0..<n * n] = replicate (n * n) 0"
    by (simp add: map_replicate_const)
  finally show ?thesis .
qed

lemma stencil_input_facts:
  assumes "stencil_read_input argv = Inr c"
  shows "1 \<le> s_iterations c" "s_iterations c < 2 ^ 31" "1 \<le> s_n c" "s_n c \<le> 46340"
    "1 \<le> s_radius c" "1 \<le> s_tile_size c"
  using assms atoi_range(2)[of "argv ! 1"]
  by (auto simp: stencil_read_input_def Let_def grid_limit_def split: if_splits)

text \<open>The kernels as the spec has them write \<open>B\<close> only.\<close>

lemma stencil_body_keeps_A: "fst (stencil_body w offsets n r (A, B)) = A"
proof -
  have "fst (fold (\<lambda>ij st. case ij of (i, j) \<Rightarrow> case st of (A, B) \<Rightarrow>
             (A, B[i * n + j := dadd (B ! (i * n + j)) (weighted_sum w offsets n A i j)]))
          cells (A, B)) = A" for cells
    by (induction cells arbitrary: B) (auto split: prod.splits)
  then show ?thesis by (simp add: stencil_body_def)
qed

lemma apply_stencil_keeps_A:
  "fst (fst (apply_stencil weight c ((A, B), err))) = A"
  by (simp add: apply_stencil_def Let_def ParallelStar_def ParallelGrid_def parallel_for_def
        Star_def Grid_def stencil_body_keeps_A)

lemma stencil_pass_A:
  assumes "length A = nat (s_n c) * nat (s_n c)"
  shows "fst (fst (stencil_pass weight c ((A, B), err))) = map (\<lambda>a. dadd a 1) A"
proof -
  obtain A' B' err' where a: "apply_stencil weight c ((A, B), err) = ((A', B'), err')"
    by (metis surj_pair)
  have "A' = A" using apply_stencil_keeps_A[of weight c A B err] by (simp add: a)
  then show ?thesis by (simp add: stencil_pass_def a ParallelAdd_eq[OF assms])
qed

lemma initial_grid:
  assumes "2 * n \<le> 2 ^ 53"
  shows "map (\<lambda>c. double_of_nat (c div n + c mod n)) [0..<n * n] = grid_after n 0"
  unfolding grid_after_def
proof (rule map_cong[OF refl])
  fix c assume "c \<in> set [0..<n * n]"
  then have "c div n < n \<and> c mod n < n" using cell_of_idx[of c n] by simp
  then have "c div n + c mod n \<le> 2 ^ 53" using assms by linarith
  then have "rnd (of_nat (c div n + c mod n)) = of_nat (c div n + c mod n)"
    by (rule rnd_of_nat)
  then show "double_of_nat (c div n + c mod n) = of_nat (c div n + c mod n + 0)"
    unfolding double_of_nat_def by simp
qed

lemma grid_step:
  assumes "2 * n + m \<le> 2 ^ 53"
  shows "map (\<lambda>a. dadd a 1) (grid_after n m) = grid_after n (Suc m)"
  unfolding grid_after_def map_map comp_def
proof (rule map_cong[OF refl])
  fix c assume "c \<in> set [0..<n * n]"
  then have "c div n < n \<and> c mod n < n" using cell_of_idx[of c n] by simp
  then have "Suc (c div n + c mod n + m) \<le> 2 ^ 53" using assms by linarith
  then show "dadd (of_nat (c div n + c mod n + m)) 1 = of_nat (c div n + c mod n + Suc m)"
    using dadd_nat_1[of "c div n + c mod n + m"] by simp
qed

lemma stencil_passes_A:
  assumes n: "n = nat (s_n c)" and b: "2 * n + m \<le> Suc (2 ^ 53)"
  shows "fst (fst (((stencil_pass weight c) ^^ m) ((grid_after n 0, B), err))) = grid_after n m"
  using b
proof (induction m)
  case 0
  show ?case by simp
next
  case (Suc m)
  obtain A' B' err' where st:
    "((stencil_pass weight c) ^^ m) ((grid_after n 0, B), err) = ((A', B'), err')"
    by (metis surj_pair)
  have A': "A' = grid_after n m" using Suc st by simp
  have len: "length A' = nat (s_n c) * nat (s_n c)" by (simp add: A' grid_after_def n)
  have "2 * n + m \<le> 2 ^ 53" using Suc.prems by simp
  then show ?case
    using stencil_pass_A[OF len, of weight B' err'] by (simp add: st A' grid_step)
qed

lemma unsupported_radius_pass:
  assumes "s_radius c \<notin> {1, 2, 3, 4, 5, 6, 7, 8, 9}"
  shows "apply_stencil weight c (AB, err) = (AB, err @ [NotInstantiated (s_radius c)])"
  using assms by (simp add: apply_stencil_def Let_def)

lemma unsupported_radius_step:
  assumes "s_radius c \<notin> {1, 2, 3, 4, 5, 6, 7, 8, 9}"
  shows "stencil_pass weight c ((A, B), err) =
     ((ParallelAdd (nat (s_n c)) (nat (s_tile_size c)) A, B),
      err @ [NotInstantiated (s_radius c)])"
  by (simp add: stencil_pass_def unsupported_radius_pass[OF assms])

lemma unsupported_radius_passes:
  assumes n: "n = nat (s_n c)" and r: "s_radius c \<notin> {1, 2, 3, 4, 5, 6, 7, 8, 9}"
    and b: "2 * n + m \<le> Suc (2 ^ 53)"
  shows "((stencil_pass weight c) ^^ m) ((grid_after n 0, B), err) =
           ((grid_after n m, B), err @ replicate m (NotInstantiated (s_radius c)))"
  using b
proof (induction m)
  case 0
  show ?case by simp
next
  case (Suc m)
  have len: "length (grid_after n m) = nat (s_n c) * nat (s_n c)" by (simp add: grid_after_def n)
  have 1: "2 * n + m \<le> 2 ^ 53" using Suc.prems by simp
  have "((stencil_pass weight c) ^^ m) ((grid_after n 0, B), err) =
           ((grid_after n m, B), err @ replicate m (NotInstantiated (s_radius c)))"
    using Suc by simp
  then show ?case
    by (simp add: unsupported_radius_step[OF r] ParallelAdd_eq[OF len]
          grid_step[OF 1] replicate_append_same)
qed

lemma stencil_initial_eq:
  assumes "n = nat (s_n c)" "2 * n \<le> 2 ^ 53"
  shows "stencil_initial c = ((grid_after n 0, replicate (n * n) 0), [])"
  using assms by (simp add: stencil_initial_def Let_def ParallelInitialize_eq initial_grid)

lemma stencil_bounds:
  assumes "stencil_read_input argv = Inr c"
  shows "2 * nat (s_n c) \<le> 2 ^ 53" "2 * nat (s_n c) + nat (s_iterations c + 1) \<le> Suc (2 ^ 53)"
  using stencil_input_facts[OF assms] by simp_all

text \<open>The loop of the stencil program: where it stands after the passes, and when it returns.\<close>

lemma stencil_compute_reaches:
  assumes "stencil_read_input argv = Inr c"
  shows "stencil_compute weight c =
     stencil_loop weight c (wrap32 (s_iterations c + 1))
       (((stencil_pass weight c) ^^ nat (s_iterations c + 1)) (stencil_initial c))"
proof -
  have f: "1 \<le> s_iterations c" "s_iterations c < 2 ^ 31"
    using stencil_input_facts[OF assms] by simp_all
  have "int (nat (s_iterations c + 1)) = s_iterations c + 1" using f by simp
  then show ?thesis
    using for_iter_reaches[OF f(2), of "nat (s_iterations c + 1)" "stencil_pass weight c"
        "stencil_initial c"]
    by (simp add: stencil_compute_def stencil_loop_def)
qed

lemma stencil_compute_returns:
  assumes "stencil_read_input argv = Inr c" "s_iterations c < INT_MAX"
  shows "stencil_compute weight c =
     Some (((stencil_pass weight c) ^^ nat (s_iterations c + 1)) (stencil_initial c))"
  using assms(2) for_iter_returns[of "s_iterations c" 0 "stencil_pass weight c" "stencil_initial c"]
  by (simp add: stencil_compute_def stencil_loop_def INT_MAX_def)

lemma stencil_main_never_returns:
  assumes "stencil_read_input argv = Inr c" "s_iterations c = INT_MAX"
  shows "stencil_main weight argv = None"
proof -
  have "stencil_compute weight c = None"
    unfolding stencil_compute_def stencil_loop_def
    by (rule for_iter_never_returns) (simp_all add: assms(2) INT_MAX_def)
  then show ?thesis by (simp add: stencil_main_def assms(1))
qed

lemma grid_after_cell:
  assumes "i < n" "j < n"
  shows "grid_after n m ! (i * n + j) = of_nat (i + j + m)"
  using idx_lt[OF assms] assms by (simp add: grid_after_def)

text \<open>
  C8. In the stencil program, for every configuration that passes validation (the
  unsupported radii from 10 on included), after initialisation and \<open>iterations + 1\<close>
  passes of the loop every element of \<open>A\<close> is
  \<open>A[i * n + j] = (i + j) + (iterations + 1)\<close>, exactly: \<open>n\<close> is at most 46340 and the
  iteration count is an \<^verbatim>\<open>int\<close>, so these doubles hold integers far below \<open>2 ^ 53\<close>. The
  loop stands at this state after its \<open>iterations + 1\<close> passes; below \<open>INT_MAX\<close>
  iterations it returns there, and this is the \<open>A\<close> the program ends with, while with
  \<open>iterations = INT_MAX\<close> the counter wraps and the program does not return. The
  stencil-apply step leaves \<open>A\<close> as it is (the kernels are modelled from the spec, which
  has them read-only on \<open>A\<close>), and the full-domain pass of each iteration adds 1 to every
  element of \<open>A\<close>.
\<close>

theorem stencil_A_after_run:
  assumes cfg: "stencil_read_input argv = Inr c"
  shows "(\<exists>A B err.
          ((stencil_pass weight c) ^^ nat (s_iterations c + 1)) (stencil_initial c) = ((A, B), err)
        \<and> stencil_compute weight c =
            stencil_loop weight c (wrap32 (s_iterations c + 1)) ((A, B), err)
        \<and> length A = nat (s_n c) * nat (s_n c)
        \<and> (\<forall>i j. i < nat (s_n c) \<and> j < nat (s_n c) \<longrightarrow>
              A ! (i * nat (s_n c) + j) = of_nat (i + j) + of_int (s_iterations c + 1))
        \<and> (s_iterations c < INT_MAX \<longrightarrow>
              stencil_compute weight c = Some ((A, B), err)
            \<and> (\<exists>res. stencil_main weight argv = Some res \<and> final_arrays res = Some (A, B))))
      \<and> (s_iterations c = INT_MAX \<longrightarrow> stencil_main weight argv = None)
      \<and> (\<forall>A' B' err'. fst (fst (apply_stencil weight c ((A', B'), err'))) = A')
      \<and> (\<forall>A' B' err'. length A' = nat (s_n c) * nat (s_n c) \<longrightarrow>
            fst (fst (stencil_pass weight c ((A', B'), err'))) = map (\<lambda>a. dadd a 1) A')"
proof -
  define n where "n = nat (s_n c)"
  define m where "m = nat (s_iterations c + 1)"
  obtain A B err where run:
    "((stencil_pass weight c) ^^ m) (stencil_initial c) = ((A, B), err)"
    by (metis surj_pair)
  have init: "stencil_initial c = ((grid_after n 0, replicate (n * n) 0), [])"
    by (rule stencil_initial_eq[OF n_def]) (use stencil_bounds[OF cfg] in \<open>simp add: n_def\<close>)
  have "fst (fst (((stencil_pass weight c) ^^ m) (stencil_initial c))) = grid_after n m"
    unfolding init
    by (rule stencil_passes_A[OF n_def]) (use stencil_bounds[OF cfg] in \<open>simp add: n_def m_def\<close>)
  then have A: "A = grid_after n m" by (simp add: run)
  have it: "0 \<le> s_iterations c + 1" using stencil_input_facts(1)[OF cfg] by simp
  have cell: "A ! (i * n + j) = of_nat (i + j) + of_int (s_iterations c + 1)"
    if "i < n \<and> j < n" for i j
  proof -
    have "A ! (i * n + j) = of_nat (i + j + m)" using that by (simp add: A grid_after_cell)
    also have "\<dots> = of_nat (i + j) + of_int (int m)" by simp
    also have "int m = s_iterations c + 1" using it by (simp add: m_def)
    finally show ?thesis .
  qed
  have len: "length A = n * n" by (simp add: A grid_after_def)
  have reach: "stencil_compute weight c =
      stencil_loop weight c (wrap32 (s_iterations c + 1)) ((A, B), err)"
    using stencil_compute_reaches[OF cfg, of weight] by (simp add: m_def[symmetric] run)
  have ret: "s_iterations c < INT_MAX \<longrightarrow>
        stencil_compute weight c = Some ((A, B), err)
      \<and> (\<exists>res. stencil_main weight argv = Some res \<and> final_arrays res = Some (A, B))"
  proof
    assume "s_iterations c < INT_MAX"
    then have c: "stencil_compute weight c = Some ((A, B), err)"
      using stencil_compute_returns[OF cfg, of weight] by (simp add: m_def[symmetric] run)
    then have "\<exists>res. stencil_main weight argv = Some res \<and> final_arrays res = Some (A, B)"
      by (simp add: stencil_main_def cfg Let_def)
    with c show "stencil_compute weight c = Some ((A, B), err)
      \<and> (\<exists>res. stencil_main weight argv = Some res \<and> final_arrays res = Some (A, B))" ..
  qed
  have first: "\<exists>A B err.
          ((stencil_pass weight c) ^^ nat (s_iterations c + 1)) (stencil_initial c) = ((A, B), err)
        \<and> stencil_compute weight c =
            stencil_loop weight c (wrap32 (s_iterations c + 1)) ((A, B), err)
        \<and> length A = nat (s_n c) * nat (s_n c)
        \<and> (\<forall>i j. i < nat (s_n c) \<and> j < nat (s_n c) \<longrightarrow>
              A ! (i * nat (s_n c) + j) = of_nat (i + j) + of_int (s_iterations c + 1))
        \<and> (s_iterations c < INT_MAX \<longrightarrow>
              stencil_compute weight c = Some ((A, B), err)
            \<and> (\<exists>res. stencil_main weight argv = Some res \<and> final_arrays res = Some (A, B)))"
    using run reach len cell ret unfolding n_def m_def
    by (intro exI[of _ A] exI[of _ B] exI[of _ err]) simp
  show ?thesis
    using first stencil_main_never_returns[OF cfg, of weight] apply_stencil_keeps_A
      stencil_pass_A
    by (intro conjI) simp_all
qed

theorem stencil_A_after_run_witness:
  "stencil_read_input [''stencil'', ''1'', ''5''] =
     Inr \<lparr>s_iterations = 1, s_n = 5, s_tile_size = 32, s_star = True, s_radius = 2\<rparr>
   \<and> (1 :: int) < INT_MAX
   \<and> (\<exists>A B res. stencil_main (\<lambda>star radius d. 1) [''stencil'', ''1'', ''5''] = Some res
          \<and> final_arrays res = Some (A, B)
          \<and> length A = 25 \<and> A ! (1 * 5 + 2) = 1 + 2 + (1 + 1) \<and> A ! (4 * 5 + 4) = 4 + 4 + (1 + 1))"
proof -
  have a: "atoi ''1'' = 1" "atoi ''5'' = 5" by (simp_all add: atoi_eval)
  have cfg: "stencil_read_input [''stencil'', ''1'', ''5''] =
     Inr \<lparr>s_iterations = 1, s_n = 5, s_tile_size = 32, s_star = True, s_radius = 2\<rparr>"
    by (simp add: stencil_read_input_def a grid_limit_def wrap32_def)
  have small: "(1 :: int) < INT_MAX" by (simp add: INT_MAX_def)
  from stencil_A_after_run[OF cfg, of "\<lambda>star radius d. 1"] small
  obtain A B res where
    f: "stencil_main (\<lambda>star radius d. 1) [''stencil'', ''1'', ''5''] = Some res"
       "final_arrays res = Some (A, B)"
    and l: "length A = 25"
    and c: "\<forall>i j. i < 5 \<and> j < 5 \<longrightarrow> A ! (i * 5 + j) = of_nat (i + j) + 2"
    by auto
  have "A ! (1 * 5 + 2) = 1 + 2 + (1 + 1)" using c[rule_format, of 1 2] by simp
  moreover have "A ! (4 * 5 + 4) = 4 + 4 + (1 + 1)" using c[rule_format, of 4 4] by simp
  ultimately show ?thesis using cfg small f l by blast
qed

lemma stencil_norm_zero:
  "stencil_norm c (replicate (nat (s_n c) * nat (s_n c)) 0) = 0"
proof -
  define n where "n = nat (s_n c)"
  define rad where "rad = nat (s_radius c)"
  have "fold (\<lambda>i. fold (\<lambda>j norm. dadd norm (dabs (replicate (n * n) 0 ! (i * n + j))))
                 [rad..<n - rad]) [rad..<n - rad] 0 = 0"
  proof (rule fold_keeps_zero, rule fold_keeps_zero)
    fix i j assume "i \<in> set [rad..<n - rad]" "j \<in> set [rad..<n - rad]"
    then have "i < n" "j < n" by auto
    then have "i * n + j < n * n" by (rule idx_lt)
    then show "dadd 0 (dabs (replicate (n * n) 0 ! (i * n + j))) = 0"
      by (simp add: dadd_def dabs_def rnd_0)
  qed
  then show ?thesis
    by (simp add: stencil_norm_def Let_def n_def rad_def ddiv_def rnd_0)
qed

lemma reference_norm_exact:
  assumes "0 \<le> s_iterations c" "s_iterations c < 2 ^ 31"
  shows "reference_norm c = of_int (2 * (s_iterations c + 1))"
proof -
  have 1: "double_of_int (s_iterations c) = of_int (s_iterations c)"
    unfolding double_of_int_def using assms by (intro rnd_of_int) simp
  have "rnd (of_int (s_iterations c + 1)) = of_int (s_iterations c + 1)"
    using assms by (intro rnd_of_int) simp
  then have 2: "dadd (of_int (s_iterations c)) 1 = of_int (s_iterations c + 1)"
    by (simp add: dadd_def)
  have "rnd (of_int (2 * (s_iterations c + 1))) = of_int (2 * (s_iterations c + 1))"
    using assms by (intro rnd_of_int) simp
  then have 3: "dmul 2 (of_int (s_iterations c + 1)) = of_int (2 * (s_iterations c + 1))"
    by (simp add: dmul_def)
  show ?thesis unfolding reference_norm_def 1 2 3 ..
qed

lemma zero_norm_fails:
  assumes "0 \<le> s_iterations c" "s_iterations c < 2 ^ 31"
  shows "dabs (dsub 0 (reference_norm c)) > epsilon"
proof -
  have "rnd (of_int (- (2 * (s_iterations c + 1)))) = of_int (- (2 * (s_iterations c + 1)))"
    using assms by (intro rnd_of_int) simp
  then have "dsub 0 (reference_norm c) = of_int (- (2 * (s_iterations c + 1)))"
    by (simp add: reference_norm_exact[OF assms] dsub_def)
  then have "dabs (dsub 0 (reference_norm c)) = of_int (2 * (s_iterations c + 1))"
    using assms(1) by (simp add: dabs_def)
  moreover have "(1::rat) \<le> of_int (2 * (s_iterations c + 1))"
    using assms(1) by (simp only: of_int_1_le_iff) simp
  moreover have "epsilon < 1" by (simp add: epsilon_value)
  ultimately show ?thesis by simp
qed

text \<open>
  What a run with an unsupported radius ends with, when its loop returns.
\<close>

lemma unsupported_radius_main:
  assumes cfg: "stencil_read_input argv = Inr c"
    and r: "s_radius c \<notin> {1, 2, 3, 4, 5, 6, 7, 8, 9}"
    and it: "s_iterations c < INT_MAX"
  shows "stencil_main weight argv =
           Some \<lparr>exit_code = 1,
            stdout = [VersionBanner, Text ''C++11/TBB Stencil execution on 2D grid'',
                      IntParam ''Number of iterations = '' (s_iterations c),
                      IntParam ''Grid size            = '' (s_n c),
                      IntParam ''Tile size            = '' (s_tile_size c),
                      StrParam ''Type of stencil      = '' (if s_star c then ''star'' else ''grid''),
                      IntParam ''Radius of stencil    = '' (s_radius c),
                      Text ''Compact representation of stencil loop body'',
                      NormError 0 (of_int (2 * (s_iterations c + 1)))],
            stderr = replicate (nat (s_iterations c + 1)) (NotInstantiated (s_radius c)),
            final_arrays = Some (grid_after (nat (s_n c)) (nat (s_iterations c + 1)),
                                 replicate (nat (s_n c) * nat (s_n c)) 0)\<rparr>"
proof -
  define n where "n = nat (s_n c)"
  define m where "m = nat (s_iterations c + 1)"
  have f: "0 \<le> s_iterations c" "s_iterations c < 2 ^ 31"
    using stencil_input_facts[OF cfg] by simp_all
  have init: "stencil_initial c = ((grid_after n 0, replicate (n * n) 0), [])"
    by (rule stencil_initial_eq[OF n_def]) (use stencil_bounds[OF cfg] in \<open>simp add: n_def\<close>)
  have "((stencil_pass weight c) ^^ m) ((grid_after n 0, replicate (n * n) 0), []) =
     ((grid_after n m, replicate (n * n) 0), [] @ replicate m (NotInstantiated (s_radius c)))"
    by (rule unsupported_radius_passes[OF n_def r])
       (use stencil_bounds[OF cfg] in \<open>simp add: n_def m_def\<close>)
  then have run: "stencil_compute weight c =
     Some ((grid_after n m, replicate (n * n) 0), replicate m (NotInstantiated (s_radius c)))"
    using stencil_compute_returns[OF cfg it, of weight] by (simp add: init m_def[symmetric])
  have norm: "stencil_norm c (replicate (n * n) 0) = 0"
    unfolding n_def by (rule stencil_norm_zero)
  show ?thesis
    using zero_norm_fails[OF f]
    unfolding n_def[symmetric] m_def[symmetric]
    by (simp add: stencil_main_def cfg Let_def run norm reference_norm_exact[OF f])
qed

text \<open>
  C5. A radius from 10 on that passes configuration does not abort the run. In every
  iteration the \<^verbatim>\<open>switch\<close> takes its default branch, which only writes the warning to
  standard error and leaves both arrays alone; the increment of \<open>A\<close> follows, and the
  iterations go on: after \<open>m\<close> passes, for every \<open>m\<close> up to \<open>iterations + 1\<close>, there are
  \<open>m\<close> warnings, \<open>B\<close> is still all zero and \<open>A\<close> has been incremented \<open>m\<close> times, and the
  loop stands at this state after its \<open>iterations + 1\<close> passes. Below \<open>INT_MAX\<close>
  iterations the loop returns; the verifier then finds the norm 0 instead of
  \<open>2 * (iterations + 1)\<close>, prints the error line and the program returns 1. With
  \<open>iterations = INT_MAX\<close> the iterations never end.
\<close>

theorem unsupported_radius_run:
  assumes cfg: "stencil_read_input argv = Inr c" and rad: "10 \<le> s_radius c"
  shows "(\<forall>AB err. apply_stencil weight c (AB, err) = (AB, err @ [NotInstantiated (s_radius c)]))
      \<and> (\<forall>A B err. stencil_pass weight c ((A, B), err) =
            ((ParallelAdd (nat (s_n c)) (nat (s_tile_size c)) A, B),
             err @ [NotInstantiated (s_radius c)]))
      \<and> (\<forall>m. m \<le> nat (s_iterations c + 1) \<longrightarrow>
            ((stencil_pass weight c) ^^ m) (stencil_initial c) =
              ((grid_after (nat (s_n c)) m, replicate (nat (s_n c) * nat (s_n c)) 0),
               replicate m (NotInstantiated (s_radius c))))
      \<and> stencil_compute weight c =
            stencil_loop weight c (wrap32 (s_iterations c + 1))
              ((grid_after (nat (s_n c)) (nat (s_iterations c + 1)),
                replicate (nat (s_n c) * nat (s_n c)) 0),
               replicate (nat (s_iterations c + 1)) (NotInstantiated (s_radius c)))
      \<and> (s_iterations c < INT_MAX \<longrightarrow>
          stencil_main weight argv =
           Some \<lparr>exit_code = 1,
            stdout = [VersionBanner, Text ''C++11/TBB Stencil execution on 2D grid'',
                      IntParam ''Number of iterations = '' (s_iterations c),
                      IntParam ''Grid size            = '' (s_n c),
                      IntParam ''Tile size            = '' (s_tile_size c),
                      StrParam ''Type of stencil      = '' (if s_star c then ''star'' else ''grid''),
                      IntParam ''Radius of stencil    = '' (s_radius c),
                      Text ''Compact representation of stencil loop body'',
                      NormError 0 (of_int (2 * (s_iterations c + 1)))],
            stderr = replicate (nat (s_iterations c + 1)) (NotInstantiated (s_radius c)),
            final_arrays = Some (grid_after (nat (s_n c)) (nat (s_iterations c + 1)),
                                 replicate (nat (s_n c) * nat (s_n c)) 0)\<rparr>)
      \<and> (s_iterations c = INT_MAX \<longrightarrow> stencil_main weight argv = None)"
proof -
  define n where "n = nat (s_n c)"
  have r: "s_radius c \<notin> {1, 2, 3, 4, 5, 6, 7, 8, 9}" using rad by auto
  have init: "stencil_initial c = ((grid_after n 0, replicate (n * n) 0), [])"
    by (rule stencil_initial_eq[OF n_def]) (use stencil_bounds[OF cfg] in \<open>simp add: n_def\<close>)
  have passes: "((stencil_pass weight c) ^^ m) (stencil_initial c) =
       ((grid_after n m, replicate (n * n) 0), replicate m (NotInstantiated (s_radius c)))"
    if "m \<le> nat (s_iterations c + 1)" for m
  proof -
    have "((stencil_pass weight c) ^^ m) ((grid_after n 0, replicate (n * n) 0), []) =
       ((grid_after n m, replicate (n * n) 0), [] @ replicate m (NotInstantiated (s_radius c)))"
      by (rule unsupported_radius_passes[OF n_def r])
         (use stencil_bounds[OF cfg] that in \<open>simp add: n_def\<close>)
    then show ?thesis by (simp add: init)
  qed
  have reach: "stencil_compute weight c =
            stencil_loop weight c (wrap32 (s_iterations c + 1))
              ((grid_after n (nat (s_iterations c + 1)), replicate (n * n) 0),
               replicate (nat (s_iterations c + 1)) (NotInstantiated (s_radius c)))"
    using stencil_compute_reaches[OF cfg, of weight] passes[of "nat (s_iterations c + 1)"]
    by simp
  show ?thesis
    using unsupported_radius_pass[OF r] unsupported_radius_step[OF r] passes reach
      unsupported_radius_main[OF cfg r, of weight] stencil_main_never_returns[OF cfg, of weight]
    unfolding n_def by (intro conjI) simp_all
qed

theorem unsupported_radius_run_witness:
  "stencil_read_input [''stencil'', ''1'', ''21'', ''21'', ''star'', ''10''] =
     Inr \<lparr>s_iterations = 1, s_n = 21, s_tile_size = 21, s_star = True, s_radius = 10\<rparr>
   \<and> (1 :: int) < INT_MAX
   \<and> map_option stderr (stencil_main (\<lambda>star radius d. 1)
               [''stencil'', ''1'', ''21'', ''21'', ''star'', ''10''])
       = Some [NotInstantiated 10, NotInstantiated 10]
   \<and> map_option exit_code (stencil_main (\<lambda>star radius d. 1)
               [''stencil'', ''1'', ''21'', ''21'', ''star'', ''10'']) = Some 1
   \<and> map_option (map_option snd \<circ> final_arrays) (stencil_main (\<lambda>star radius d. 1)
               [''stencil'', ''1'', ''21'', ''21'', ''star'', ''10''])
       = Some (Some (replicate 441 0))"
proof -
  have a: "atoi ''1'' = 1" "atoi ''21'' = 21" "atoi ''10'' = 10" by (simp_all add: atoi_eval)
  have cfg: "stencil_read_input [''stencil'', ''1'', ''21'', ''21'', ''star'', ''10''] =
     Inr \<lparr>s_iterations = 1, s_n = 21, s_tile_size = 21, s_star = True, s_radius = 10\<rparr>"
    by (simp add: stencil_read_input_def a grid_limit_def wrap32_def)
  have small: "(1 :: int) < INT_MAX" by (simp add: INT_MAX_def)
  have two: "replicate (nat 2) (NotInstantiated 10) = [NotInstantiated 10, NotInstantiated 10]"
    by (simp add: numeral_2_eq_2)
  show ?thesis
    using unsupported_radius_run[OF cfg, of "\<lambda>star radius d. 1"] cfg two small
    by simp
qed

section \<open>Stencil: configuration\<close>

text \<open>
  The radius check of the source is \<^verbatim>\<open>(radius < 1) || (2*radius+1 > n)\<close> on \<^verbatim>\<open>int\<close>s.
  As long as \<open>2 * radius + 1\<close> fits an \<^verbatim>\<open>int\<close> (a radius below \<open>2 ^ 30\<close>), a radius below 1
  or too large for the grid ends the run in configuration: exit code 1, one error line
  on standard output after the banner, nothing on standard error, and the arrays are
  never allocated. The spec's instance \<open>order = 1\<close> with the default radius 2 is of this
  kind.
\<close>

lemma stencil_radius_rejected_without_overflow:
  assumes argc: "3 \<le> length argv"
    and radius: "radius = (if 5 < length argv then atoi (argv ! 5) else 2)"
    and bad: "radius < 1 \<or> atoi (argv ! 2) < 2 * radius + 1"
    and fits: "radius < 2 ^ 30"
  shows "\<exists>e. stencil_main weight argv =
           Some \<lparr>exit_code = 1,
                 stdout = [VersionBanner, Text ''C++11/TBB Stencil execution on 2D grid'', Text e],
                 stderr = [], final_arrays = None\<rparr>
         \<and> (1 \<le> atoi (argv ! 1) \<and> 1 \<le> atoi (argv ! 2) \<and> atoi (argv ! 2) \<le> grid_limit \<longrightarrow>
              e = ''ERROR: Stencil radius negative or too large'')"
proof -
  have b: "radius < 1 \<or> wrap32 (wrap32 (2 * radius) + 1) > atoi (argv ! 2)"
  proof (cases "radius < 1")
    case True
    then show ?thesis by simp
  next
    case False
    then have "wrap32 (wrap32 (2 * radius) + 1) = 2 * radius + 1"
      using fits by (simp add: wrap32_id)
    then show ?thesis using bad False by simp
  qed
  have 1: "\<exists>e. stencil_read_input argv = Inl e"
    using argc radius b by (auto simp: stencil_read_input_def Let_def)
  have 2: "1 \<le> atoi (argv ! 1) \<and> 1 \<le> atoi (argv ! 2) \<and> atoi (argv ! 2) \<le> grid_limit \<longrightarrow>
      stencil_read_input argv = Inl ''ERROR: Stencil radius negative or too large''"
    using argc radius b by (auto simp: stencil_read_input_def Let_def)
  from 1 obtain e where e: "stencil_read_input argv = Inl e" ..
  show ?thesis
    using e 2 by (intro exI[of _ e]) (simp add: stencil_main_def)
qed

lemma stencil_small_order_rejected:
  "stencil_main weight [''stencil'', ''10'', ''1''] =
     Some \<lparr>exit_code = 1,
      stdout = [VersionBanner, Text ''C++11/TBB Stencil execution on 2D grid'',
                Text ''ERROR: Stencil radius negative or too large''],
      stderr = [], final_arrays = None\<rparr>"
proof -
  have a: "atoi ''10'' = 10" "atoi ''1'' = 1" by (simp_all add: atoi_eval)
  show ?thesis
    using stencil_radius_rejected_without_overflow[of "[''stencil'', ''10'', ''1'']" 2 weight]
    by (auto simp: a grid_limit_def)
qed

text \<open>
  C4 does not hold of the code for every radius. From \<open>radius = 2 ^ 30\<close> on, the \<^verbatim>\<open>int\<close>
  expression \<^verbatim>\<open>2*radius+1\<close> of the check wraps around to a negative number, which is not
  above \<open>n\<close>: the configuration
  \<^verbatim>\<open>stencil 1 5 5 star 1073741824\<close>, whose radius violates \<open>2 * radius + 1 \<le> order\<close>,
  is accepted. The arrays are allocated, both iterations run (each only writes the
  unsupported-radius warning and increments \<open>A\<close>), and the run ends in the verifier with
  the norm error and exit code 1, not in configuration.
\<close>

theorem stencil_radius_overflow_accepted:
  "stencil_read_input [''stencil'', ''1'', ''5'', ''5'', ''star'', ''1073741824''] =
     Inr \<lparr>s_iterations = 1, s_n = 5, s_tile_size = 5, s_star = True, s_radius = 1073741824\<rparr>
   \<and> \<not> 2 * 1073741824 + 1 \<le> (5 :: int)
   \<and> stencil_main weight [''stencil'', ''1'', ''5'', ''5'', ''star'', ''1073741824''] =
       Some \<lparr>exit_code = 1,
         stdout = [VersionBanner, Text ''C++11/TBB Stencil execution on 2D grid'',
                   IntParam ''Number of iterations = '' 1,
                   IntParam ''Grid size            = '' 5,
                   IntParam ''Tile size            = '' 5,
                   StrParam ''Type of stencil      = '' ''star'',
                   IntParam ''Radius of stencil    = '' 1073741824,
                   Text ''Compact representation of stencil loop body'',
                   NormError 0 4],
         stderr = [NotInstantiated 1073741824, NotInstantiated 1073741824],
         final_arrays = Some (grid_after 5 2, replicate 25 0)\<rparr>"
proof -
  have a: "atoi ''1'' = 1" "atoi ''5'' = 5" "atoi ''1073741824'' = 1073741824"
    by (simp_all add: atoi_eval)
  have cfg: "stencil_read_input [''stencil'', ''1'', ''5'', ''5'', ''star'', ''1073741824''] =
     Inr \<lparr>s_iterations = 1, s_n = 5, s_tile_size = 5, s_star = True, s_radius = 1073741824\<rparr>"
    by (simp add: stencil_read_input_def a grid_limit_def wrap32_def)
  have two: "replicate (nat 2) (NotInstantiated 1073741824) =
      [NotInstantiated 1073741824, NotInstantiated 1073741824]"
    by (simp add: numeral_2_eq_2)
  have "stencil_main weight [''stencil'', ''1'', ''5'', ''5'', ''star'', ''1073741824''] =
       Some \<lparr>exit_code = 1,
         stdout = [VersionBanner, Text ''C++11/TBB Stencil execution on 2D grid'',
                   IntParam ''Number of iterations = '' 1,
                   IntParam ''Grid size            = '' 5,
                   IntParam ''Tile size            = '' 5,
                   StrParam ''Type of stencil      = '' ''star'',
                   IntParam ''Radius of stencil    = '' 1073741824,
                   Text ''Compact representation of stencil loop body'',
                   NormError 0 4],
         stderr = [NotInstantiated 1073741824, NotInstantiated 1073741824],
         final_arrays = Some (grid_after 5 2, replicate 25 0)\<rparr>"
    using unsupported_radius_main[OF cfg, of weight] two
    by (simp add: INT_MAX_def)
  with cfg show ?thesis by simp
qed

text \<open>
  C10. The shape token never makes configuration fail. Whatever the fifth argument is,
  the same argument vectors are accepted and rejected; when it is anything but the
  exact string \<open>grid\<close> (a misspelling, \<open>Grid\<close>), the star shape is selected and the whole
  run is the run with \<open>star\<close> in its place.
\<close>

theorem stencil_shape_token:
  assumes argc: "4 < length argv" and tok: "argv ! 4 \<noteq> ''grid''"
  shows "stencil_main weight argv = stencil_main weight (argv[4 := ''star''])
       \<and> (\<forall>c. stencil_read_input argv = Inr c \<longrightarrow> s_star c)
       \<and> (\<forall>token. isl (stencil_read_input (argv[4 := token])) = isl (stencil_read_input argv))"
proof -
  have 1: "stencil_read_input argv = stencil_read_input (argv[4 := ''star''])"
    using argc tok by (simp add: stencil_read_input_def Let_def)
  have 2: "\<forall>c. stencil_read_input argv = Inr c \<longrightarrow> s_star c"
    using argc tok by (auto simp: stencil_read_input_def Let_def split: if_splits)
  have 3: "isl (stencil_read_input (argv[4 := token])) = isl (stencil_read_input argv)" for token
    using argc by (simp add: stencil_read_input_def Let_def)
  show ?thesis using 1 2 3 by (simp add: stencil_main_def)
qed

theorem stencil_shape_token_witness:
  "stencil_read_input [''stencil'', ''1'', ''8'', ''4'', ''Grid''] =
     Inr \<lparr>s_iterations = 1, s_n = 8, s_tile_size = 4, s_star = True, s_radius = 2\<rparr>
   \<and> stencil_main (\<lambda>star radius d. 1) [''stencil'', ''1'', ''8'', ''4'', ''Grid'']
     = stencil_main (\<lambda>star radius d. 1) [''stencil'', ''1'', ''8'', ''4'', ''star'']"
proof -
  have a: "atoi ''1'' = 1" "atoi ''8'' = 8" "atoi ''4'' = 4"
    by (simp_all add: atoi_eval)
  have s: "stencil_read_input [''stencil'', ''1'', ''8'', ''4'', ''Grid''] =
     Inr \<lparr>s_iterations = 1, s_n = 8, s_tile_size = 4, s_star = True, s_radius = 2\<rparr>"
    by (simp add: stencil_read_input_def a grid_limit_def wrap32_def)
  show ?thesis
    using stencil_shape_token[of "[''stencil'', ''1'', ''8'', ''4'', ''Grid'']"
        "\<lambda>star radius d. 1"] s
    by simp
qed

section \<open>Transpose: configuration\<close>

text \<open>
  C6. In the transpose program a tile size with \<open>0 < tile_size < order\<close> that does not
  divide the order ends the run in configuration: the program returns with exit code 1,
  the error on standard output (the tile-size message when the iteration count and the
  order are valid), no arrays, no computation. With the argument omitted, or a tile size
  \<open>\<le> 0\<close>, the tile size resolves to the order and the configuration is accepted.
\<close>

theorem transpose_tile_size_check:
  assumes argc: "3 \<le> length argv"
  shows "(3 < length argv \<and> 0 < atoi (argv ! 3) \<and> atoi (argv ! 3) < atoi (argv ! 2)
            \<and> atoi (argv ! 2) mod atoi (argv ! 3) \<noteq> 0 \<longrightarrow>
          (\<exists>e. transpose_main max_matrix_size argv =
                 Some \<lparr>exit_code = 1,
                       stdout = [VersionBanner, Text ''C++11/ranges Matrix transpose: B = A^T'',
                                 Text e],
                       stderr = [], final_arrays = None\<rparr>
             \<and> (1 \<le> atoi (argv ! 1) \<and> atoi (argv ! 2) \<le> max_matrix_size \<longrightarrow>
                  e = ''ERROR: tile size must evenly divide order'')))
       \<and> ((length argv = 3 \<or> atoi (argv ! 3) \<le> 0)
            \<and> 1 \<le> atoi (argv ! 1) \<and> 0 < atoi (argv ! 2) \<and> atoi (argv ! 2) \<le> max_matrix_size \<longrightarrow>
          transpose_read_input max_matrix_size argv =
            Inr \<lparr>t_iterations = atoi (argv ! 1), t_order = atoi (argv ! 2),
                 t_tile_size = atoi (argv ! 2)\<rparr>)"
proof (intro conjI impI)
  assume h: "(length argv = 3 \<or> atoi (argv ! 3) \<le> 0)
            \<and> 1 \<le> atoi (argv ! 1) \<and> 0 < atoi (argv ! 2) \<and> atoi (argv ! 2) \<le> max_matrix_size"
  then show "transpose_read_input max_matrix_size argv =
            Inr \<lparr>t_iterations = atoi (argv ! 1), t_order = atoi (argv ! 2),
                 t_tile_size = atoi (argv ! 2)\<rparr>"
    using argc by (auto simp: transpose_read_input_def Let_def)
next
  assume h: "3 < length argv \<and> 0 < atoi (argv ! 3) \<and> atoi (argv ! 3) < atoi (argv ! 2)
            \<and> atoi (argv ! 2) mod atoi (argv ! 3) \<noteq> 0"
  then have sm: "atoi (argv ! 2) smod atoi (argv ! 3) \<noteq> 0"
    by (simp add: smod_pos)
  have "\<exists>e. transpose_read_input max_matrix_size argv = Inl e"
    using h sm by (auto simp: transpose_read_input_def Let_def)
  then obtain e where e: "transpose_read_input max_matrix_size argv = Inl e" ..
  have "1 \<le> atoi (argv ! 1) \<and> atoi (argv ! 2) \<le> max_matrix_size \<longrightarrow>
      transpose_read_input max_matrix_size argv =
      Inl ''ERROR: tile size must evenly divide order''"
    using h sm by (auto simp: transpose_read_input_def Let_def)
  then show "\<exists>e. transpose_main max_matrix_size argv =
                 Some \<lparr>exit_code = 1,
                       stdout = [VersionBanner, Text ''C++11/ranges Matrix transpose: B = A^T'',
                                 Text e],
                       stderr = [], final_arrays = None\<rparr>
             \<and> (1 \<le> atoi (argv ! 1) \<and> atoi (argv ! 2) \<le> max_matrix_size \<longrightarrow>
                  e = ''ERROR: tile size must evenly divide order'')"
    using e by (intro exI[of _ e]) (simp add: transpose_main_def)
qed

theorem transpose_tile_size_check_witness:
  "transpose_main 46340 [''transpose'', ''2'', ''4'', ''3''] =
     Some \<lparr>exit_code = 1,
      stdout = [VersionBanner, Text ''C++11/ranges Matrix transpose: B = A^T'',
                Text ''ERROR: tile size must evenly divide order''],
      stderr = [], final_arrays = None\<rparr>
   \<and> transpose_read_input 46340 [''transpose'', ''2'', ''4'', ''-3''] =
       Inr \<lparr>t_iterations = 2, t_order = 4, t_tile_size = 4\<rparr>
   \<and> transpose_read_input 46340 [''transpose'', ''2'', ''4''] =
       Inr \<lparr>t_iterations = 2, t_order = 4, t_tile_size = 4\<rparr>"
proof -
  have a: "atoi ''2'' = 2" "atoi ''4'' = 4" "atoi ''3'' = 3" "atoi ''-3'' = - 3"
    by (simp_all add: atoi_eval)
  show ?thesis
    using transpose_tile_size_check[of "[''transpose'', ''2'', ''4'', ''3'']" 46340]
      transpose_tile_size_check[of "[''transpose'', ''2'', ''4'', ''-3'']" 46340]
      transpose_tile_size_check[of "[''transpose'', ''2'', ''4'']" 46340]
    by (auto simp: a)
qed

section \<open>Both programs: the tile size\<close>

text \<open>
  C7, as the spec has it, fails twice. The stencil program without a tile-size argument
  runs with tile size 32, not with the grid dimension (here 100, and 8, where 32 is not
  even within \<open>[1, n]\<close>); and the transpose program keeps a tile size above the order
  (100 for order 8) instead of clamping it.
\<close>

theorem tile_size_default_counterexample:
  "stencil_read_input [''stencil'', ''1'', ''100''] =
     Inr \<lparr>s_iterations = 1, s_n = 100, s_tile_size = 32, s_star = True, s_radius = 2\<rparr>
   \<and> (32 :: int) \<noteq> 100
   \<and> stencil_read_input [''stencil'', ''1'', ''8''] =
     Inr \<lparr>s_iterations = 1, s_n = 8, s_tile_size = 32, s_star = True, s_radius = 2\<rparr>
   \<and> \<not> (32 :: int) \<le> 8
   \<and> transpose_read_input 46340 [''transpose'', ''1'', ''8'', ''100''] =
     Inr \<lparr>t_iterations = 1, t_order = 8, t_tile_size = 100\<rparr>
   \<and> \<not> (100 :: int) \<le> 8"
proof -
  have a: "atoi ''1'' = 1" "atoi ''100'' = 100" "atoi ''8'' = 8"
    by (simp_all add: atoi_eval)
  show ?thesis
    by (simp add: stencil_read_input_def transpose_read_input_def a grid_limit_def wrap32_def)
qed

text \<open>
  C7, amended. Transpose: the resolved tile size is the order when the argument is
  omitted or \<open>\<le> 0\<close>, and the argument itself otherwise, also above the order (where the
  untiled branch runs); it is at least 1 and divides the order when it is below it.
  Stencil: the resolved tile size is 32 when the argument is omitted, whatever the grid
  dimension; a supplied tile size is kept within \<open>[1, n]\<close> and replaced by \<open>n\<close> outside.
\<close>

theorem tile_size_resolution:
  "(transpose_read_input max_matrix_size argv = Inr tc \<longrightarrow>
      t_tile_size tc =
        (if 3 < length argv \<and> 0 < atoi (argv ! 3) then atoi (argv ! 3) else t_order tc)
      \<and> 1 \<le> t_tile_size tc
      \<and> (t_tile_size tc < t_order tc \<longrightarrow> t_order tc mod t_tile_size tc = 0))
   \<and> (stencil_read_input argv = Inr sc \<longrightarrow>
      s_tile_size sc =
        (if 3 < length argv
         then (if 1 \<le> atoi (argv ! 3) \<and> atoi (argv ! 3) \<le> s_n sc then atoi (argv ! 3) else s_n sc)
         else 32)
      \<and> 1 \<le> s_tile_size sc
      \<and> (3 < length argv \<longrightarrow> s_tile_size sc \<le> s_n sc))"
proof (intro conjI impI)
  assume t: "transpose_read_input max_matrix_size argv = Inr tc"
  then show "t_tile_size tc =
        (if 3 < length argv \<and> 0 < atoi (argv ! 3) then atoi (argv ! 3) else t_order tc)"
    by (auto simp: transpose_read_input_def Let_def split: if_splits)
  from t show "1 \<le> t_tile_size tc"
    by (auto simp: transpose_read_input_def Let_def split: if_splits)
  assume "t_tile_size tc < t_order tc"
  with t show "t_order tc mod t_tile_size tc = 0"
    by (auto simp: transpose_read_input_def Let_def smod_pos split: if_splits)
next
  assume s: "stencil_read_input argv = Inr sc"
  then show "s_tile_size sc =
        (if 3 < length argv
         then (if 1 \<le> atoi (argv ! 3) \<and> atoi (argv ! 3) \<le> s_n sc then atoi (argv ! 3) else s_n sc)
         else 32)"
    by (auto simp: stencil_read_input_def Let_def split: if_splits)
  from s show "1 \<le> s_tile_size sc"
    by (auto simp: stencil_read_input_def Let_def split: if_splits)
  assume "3 < length argv"
  with s show "s_tile_size sc \<le> s_n sc"
    by (auto simp: stencil_read_input_def Let_def split: if_splits)
qed

theorem tile_size_resolution_witness:
  "transpose_read_input 46340 [''transpose'', ''1'', ''8'', ''4''] =
      Inr \<lparr>t_iterations = 1, t_order = 8, t_tile_size = 4\<rparr>
   \<and> (8 :: int) mod 4 = 0
   \<and> stencil_read_input [''stencil'', ''1'', ''8'', ''100''] =
      Inr \<lparr>s_iterations = 1, s_n = 8, s_tile_size = 8, s_star = True, s_radius = 2\<rparr>
   \<and> atoi ''100'' = 100"
proof -
  have a: "atoi ''1'' = 1" "atoi ''8'' = 8" "atoi ''4'' = 4" "atoi ''100'' = 100"
    by (simp_all add: atoi_eval)
  have t: "transpose_read_input 46340 [''transpose'', ''1'', ''8'', ''4''] =
      Inr \<lparr>t_iterations = 1, t_order = 8, t_tile_size = 4\<rparr>"
    by (simp add: transpose_read_input_def a smod_pos)
  have s: "stencil_read_input [''stencil'', ''1'', ''8'', ''100''] =
      Inr \<lparr>s_iterations = 1, s_n = 8, s_tile_size = 8, s_star = True, s_radius = 2\<rparr>"
    by (simp add: stencil_read_input_def a grid_limit_def wrap32_def)
  show ?thesis
    using tile_size_resolution[of 46340 "[''transpose'', ''1'', ''8'', ''4'']"
        "\<lparr>t_iterations = 1, t_order = 8, t_tile_size = 4\<rparr>"]
      tile_size_resolution[of _ "[''stencil'', ''1'', ''8'', ''100'']" _
        "\<lparr>s_iterations = 1, s_n = 8, s_tile_size = 8, s_star = True, s_radius = 2\<rparr>"]
      t s a
    by simp
qed

end
